theory Spec2Isabelle
  imports Main
begin

section \<open>Python values used by main.py\<close>

text \<open>
  The program indexes nested Python lists with integers. A Python subscript \<open>xs[i]\<close>
  accepts \<open>-len(xs) \<le> i < len(xs)\<close> (a negative index counts from the end) and raises
  \<open>IndexError\<close> otherwise. A call with the wrong number of arguments raises \<open>TypeError\<close>.
  \<open>OtherError\<close> is an exception of any other class, by its name: what a method of a
  foreign object may raise.
\<close>

datatype py_error = IndexError | TypeError | OtherError string

definition len :: "'a list \<Rightarrow> int" where
  "len xs = int (length xs)"

definition subscript :: "'a list \<Rightarrow> int \<Rightarrow> py_error + 'a" where
  "subscript xs i =
     (if 0 \<le> i \<and> i < len xs then Inr (xs ! nat i)
      else if i < 0 \<and> - len xs \<le> i then Inr (xs ! nat (len xs + i))
      else Inl IndexError)"

section \<open>Directions, buttons and the application state\<close>

text \<open>\<open>class Directions(Enum)\<close>, lines 22 to 26: four members, each with a name and a value.\<close>

datatype Directions = UP | DOWN | LEFT | RIGHT

fun Directions_name :: "Directions \<Rightarrow> string" where
  "Directions_name UP = ''UP''"
| "Directions_name DOWN = ''DOWN''"
| "Directions_name LEFT = ''LEFT''"
| "Directions_name RIGHT = ''RIGHT''"

fun Directions_value :: "Directions \<Rightarrow> string" where
  "Directions_value UP = ''up''"
| "Directions_value DOWN = ''down''"
| "Directions_value LEFT = ''left''"
| "Directions_value RIGHT = ''right''"

text \<open>
  The parameter of \<open>change_button_focus\<close> is only annotated with that type, so any object
  can arrive there. The handler does two things with it: it compares it with the members,
  \<open>direction == Directions.UP\<close> and so on, and in the last branch it formats it with
  \<open>{direction=}\<close>, which takes its \<open>repr\<close>. A member of an \<open>Enum\<close> equals itself only,
  so for an object that is no member the answer of a comparison is whatever the object's
  \<open>__eq__\<close> gives, taken as a truth value, or the exception that raises.
  \<open>Member\<close> is a member of the enumeration; \<open>NonMember eq r\<close> is any other object, given by
  the outcome \<open>eq m\<close> of its comparison with each member \<open>m\<close> and the outcome \<open>r\<close> of its
  \<open>repr\<close>. The methods of the object are taken not to write the application's objects.
\<close>

datatype direction_arg =
  Member Directions
| NonMember "Directions \<Rightarrow> py_error + bool" "py_error + string"

text \<open>\<open>direction == Directions.m\<close> as the condition of an \<open>if\<close>.\<close>

definition equals :: "direction_arg \<Rightarrow> Directions \<Rightarrow> py_error + bool" where
  "equals direction m =
     (case direction of
        Member d \<Rightarrow> Inr (d = m)
      | NonMember eq r \<Rightarrow> eq m)"

text \<open>\<open>repr(direction)\<close>; a member prints as \<open><Directions.UP: 'up'>\<close>.\<close>

definition repr :: "direction_arg \<Rightarrow> py_error + string" where
  "repr direction =
     (case direction of
        Member d \<Rightarrow>
          Inr (''<Directions.'' @ Directions_name d @ '': '' @ [CHR 0x27] @
               Directions_value d @ [CHR 0x27] @ ''>'')
      | NonMember eq r \<Rightarrow> r)"

text \<open>
  A callback is an opaque callable. The one callable the program binds is the bound method
  \<open>self.watch_status\<close>; \<open>Extern\<close> stands for any other callable, known by name only.
\<close>

datatype callable = WatchStatus | Extern string

text \<open>
  \<open>class MyButton(Widget)\<close>: the fields \<open>_text\<close>, \<open>_callback\<close>, \<open>_args\<close> and the
  reactive attribute \<open>in_focus\<close>. The widget name handed to the toolkit's base class is
  not read by the program and is left out.
\<close>

record MyButton =
  btn_text :: string
  callback :: "callable option"
  args :: "string list option"
  in_focus :: bool

definition MyButton_init :: "string option \<Rightarrow> callable option \<Rightarrow> string list option \<Rightarrow> MyButton" where
  "MyButton_init text_arg callback_arg args_arg =
     \<lparr>btn_text = (case text_arg of None \<Rightarrow> [] | Some t \<Rightarrow> t),
      callback = callback_arg,
      args = args_arg,
      in_focus = False\<rparr>"

text \<open>
  \<open>MyButton.on_enter\<close> and \<open>MyButton.on_leave\<close>, the toolkit's pointer events: they write
  the same flag, outside the navigation.
\<close>

definition on_enter :: "MyButton \<Rightarrow> MyButton" where
  "on_enter self = self\<lparr>in_focus := True\<rparr>"

definition on_leave :: "MyButton \<Rightarrow> MyButton" where
  "on_leave self = self\<lparr>in_focus := False\<rparr>"

text \<open>
  Buttons are objects: \<open>_buttons\<close> is a list of lists of references, and an assignment
  to \<open>in_focus\<close> mutates the object behind a reference. The state therefore holds the grid
  of references and a store from references to button objects, so that two cells naming
  the same button are modelled as such. \<open>status\<close> is the application's reactive attribute,
  \<open>status_value\<close> the \<open>value\<close> of the \<open>Status\<close> widget that \<open>watch_status\<close> writes.
  \<open>calls\<close> is a log of the callback invocations made so far, in order; the program has no
  such field, the log is what makes "invoked once with these arguments" a statement about
  a state.
\<close>

type_synonym ref = nat

record app_state =
  buttons :: "ref list list"
  heap :: "ref \<Rightarrow> MyButton"
  focus_index_x :: int
  focus_index_y :: int
  status :: string
  status_value :: string
  calls :: "(callable \<times> string list) list"

text \<open>
  A method either returns normally with the new state (\<open>Inr\<close>) or raises (\<open>Inl\<close>); the
  objects keep whatever was written before the raise, so the error carries that state.
\<close>

type_synonym result = "(py_error \<times> app_state) + app_state"

definition final_state :: "result \<Rightarrow> app_state" where
  "final_state r = (case r of Inl (e, s) \<Rightarrow> s | Inr s \<Rightarrow> s)"

definition START :: string where
  "START = ''START''"

definition STOP :: string where
  "STOP = ''STOP''"

text \<open>
  \<open>ClockApp.on_mount\<close>: both indices 0, a grid of two columns with one button each. The
  START button (reference 0) is bound to \<open>watch_status\<close> with the arguments
  \<open>["top_button"]\<close>, the STOP button (reference 1) has no callback; no other reference
  occurs in the grid. The clock, the timer and the layout calls belong to the toolkit and
  are not part of the state.
\<close>

definition on_mount :: app_state where
  "on_mount =
     \<lparr>buttons = [[0], [1]],
      heap = (\<lambda>r. if r = 0 then MyButton_init (Some START) (Some WatchStatus) (Some [''top_button''])
                   else MyButton_init (Some STOP) None None),
      focus_index_x = 0,
      focus_index_y = 0,
      status = ''--'',
      status_value = ''-'',
      calls = []\<rparr>"

section \<open>Focus navigation: \<open>change_button_focus\<close>\<close>

text \<open>
  Lines 138 to 169: the new indices. The chain of \<open>if\<close> and \<open>elif\<close> compares the argument
  with UP, DOWN, LEFT, RIGHT in this order and takes the first branch whose comparison is
  true; a comparison that raises ends the handler with nothing written. Only the DOWN
  branch reads the grid before the assignments at the end
  (\<open>len(self._buttons[self._focus_index_x])\<close>), and only the final \<open>else\<close> writes the state
  (\<open>self.status\<close>), after taking the \<open>repr\<close> of the argument.
\<close>

definition new_focus_index :: "app_state \<Rightarrow> direction_arg \<Rightarrow> (py_error \<times> app_state) + (app_state \<times> int \<times> int)" where
  "new_focus_index s direction =
     (case equals direction UP of
        Inl e \<Rightarrow> Inl (e, s)
      | Inr is_up \<Rightarrow>
          if is_up then
            Inr (s, focus_index_x s,
                 (if focus_index_y s \<le> 0 then 0 else focus_index_y s - 1))
          else
     (case equals direction DOWN of
        Inl e \<Rightarrow> Inl (e, s)
      | Inr is_down \<Rightarrow>
          if is_down then
            (case subscript (buttons s) (focus_index_x s) of
               Inl e \<Rightarrow> Inl (e, s)
             | Inr col \<Rightarrow>
                 Inr (s, focus_index_x s,
                      (if focus_index_y s \<ge> len col - 1 then len col - 1
                       else focus_index_y s + 1)))
          else
     (case equals direction LEFT of
        Inl e \<Rightarrow> Inl (e, s)
      | Inr is_left \<Rightarrow>
          if is_left then
            Inr (s, (if focus_index_x s \<le> 0 then 0 else focus_index_x s - 1),
                 focus_index_y s)
          else
     (case equals direction RIGHT of
        Inl e \<Rightarrow> Inl (e, s)
      | Inr is_right \<Rightarrow>
          if is_right then
            Inr (s, (if focus_index_x s \<le> len (buttons s) - 1 then len (buttons s) - 1
                     else focus_index_x s + 1),
                 focus_index_y s)
          else
     (case repr direction of
        Inl e \<Rightarrow> Inl (e, s)
      | Inr r \<Rightarrow>
          Inr (s\<lparr>status := ''ERROR: Undefined direction='' @ r\<rparr>, 0, 0))))))"

text \<open>\<open>self._buttons[i][j]\<close>: two subscripts, each of which may raise.\<close>

definition button_at :: "app_state \<Rightarrow> int \<Rightarrow> int \<Rightarrow> py_error + ref" where
  "button_at s i j =
     (case subscript (buttons s) i of
        Inl e \<Rightarrow> Inl e
      | Inr col \<Rightarrow> subscript col j)"

text \<open>\<open>self._buttons[i][j].in_focus = v\<close>: the object behind the reference is updated.\<close>

definition set_in_focus :: "app_state \<Rightarrow> int \<Rightarrow> int \<Rightarrow> bool \<Rightarrow> result" where
  "set_in_focus s i j v =
     (case button_at s i j of
        Inl e \<Rightarrow> Inl (e, s)
      | Inr r \<Rightarrow> Inr (s\<lparr>heap := (heap s)(r := (heap s r)\<lparr>in_focus := v\<rparr>)\<rparr>))"

text \<open>
  Lines 137 to 174. The previous button is cleared first (line 171), then the new one is
  set (line 172), and only then are the two indices stored (lines 173, 174): a raise at
  line 172 leaves the previous button cleared and the indices as they were.
\<close>

definition change_button_focus :: "app_state \<Rightarrow> direction_arg \<Rightarrow> result" where
  "change_button_focus s direction =
     (let previous_index_x = focus_index_x s;
          previous_index_y = focus_index_y s
      in case new_focus_index s direction of
           Inl e \<Rightarrow> Inl e
         | Inr (s1, new_focus_index_x, new_focus_index_y) \<Rightarrow>
             (case set_in_focus s1 previous_index_x previous_index_y False of
                Inl e \<Rightarrow> Inl e
              | Inr s2 \<Rightarrow>
                  (case set_in_focus s2 new_focus_index_x new_focus_index_y True of
                     Inl e \<Rightarrow> Inl e
                   | Inr s3 \<Rightarrow>
                       Inr (s3\<lparr>focus_index_x := new_focus_index_x,
                                focus_index_y := new_focus_index_y\<rparr>))))"

text \<open>
  A sequence of moves, each awaited before the next: the first raise ends the sequence,
  as the exception would.
\<close>

fun moves :: "app_state \<Rightarrow> direction_arg list \<Rightarrow> result" where
  "moves s [] = Inr s"
| "moves s (d # ds) =
     (case change_button_focus s d of
        Inl e \<Rightarrow> Inl e
      | Inr s' \<Rightarrow> moves s' ds)"

text \<open>
  What happens to an exception that leaves a handler is the toolkit's business. Should
  it keep dispatching keys, the next handler starts in the state the raise left behind.
\<close>

fun moves_on :: "app_state \<Rightarrow> direction_arg list \<Rightarrow> app_state" where
  "moves_on s [] = s"
| "moves_on s (d # ds) = moves_on (final_state (change_button_focus s d)) ds"

text \<open>
  The key handlers, lines 176 to 190: each writes the status line and then awaits
  \<open>change_button_focus\<close>. An assignment to the reactive attribute \<open>status\<close> stores the
  value; the toolkit later hands it to \<open>watch_status\<close>, which is the toolkit's dispatch and
  not part of these definitions.
\<close>

definition action_up :: "app_state \<Rightarrow> result" where
  "action_up s = change_button_focus (s\<lparr>status := ''up-arrow''\<rparr>) (Member UP)"

definition action_down :: "app_state \<Rightarrow> result" where
  "action_down s = change_button_focus (s\<lparr>status := ''down-arrow''\<rparr>) (Member DOWN)"

definition action_left :: "app_state \<Rightarrow> result" where
  "action_left s = change_button_focus (s\<lparr>status := ''left-arrow''\<rparr>) (Member LEFT)"

definition action_right :: "app_state \<Rightarrow> result" where
  "action_right s = change_button_focus (s\<lparr>status := ''right-arrow''\<rparr>) (Member RIGHT)"

section \<open>Activation: \<open>interact\<close> and \<open>action_enter\<close>\<close>

text \<open>\<open>ClockApp.watch_status\<close> writes the value of the status widget.\<close>

definition watch_status :: "app_state \<Rightarrow> string \<Rightarrow> app_state" where
  "watch_status s v = s\<lparr>status_value := v\<rparr>"

text \<open>
  Calling a callable with positional arguments. \<open>watch_status\<close> takes exactly one; any
  other callable is opaque and only leaves its entry in the log.
\<close>

fun call :: "callable \<Rightarrow> string list \<Rightarrow> app_state \<Rightarrow> result" where
  "call WatchStatus [v] s = Inr (watch_status (s\<lparr>calls := calls s @ [(WatchStatus, [v])]\<rparr>) v)"
| "call WatchStatus vs s = Inl (TypeError, s)"
| "call (Extern f) vs s = Inr (s\<lparr>calls := calls s @ [(Extern f, vs)]\<rparr>)"

text \<open>
  \<open>interact\<close> is declared \<open>async def\<close>: calling it runs nothing, it returns a coroutine
  object holding the body, and the body runs when the coroutine is awaited.
\<close>

datatype coroutine = Coroutine "app_state \<Rightarrow> result"

fun await :: "coroutine \<Rightarrow> app_state \<Rightarrow> result" where
  "await (Coroutine body) s = body s"

definition interact :: "ref \<Rightarrow> coroutine" where
  "interact self =
     Coroutine (\<lambda>s.
       case callback (heap s self) of
         None \<Rightarrow> Inr s
       | Some f \<Rightarrow>
           (case args (heap s self) of
              None \<Rightarrow> call f [] s
            | Some a \<Rightarrow> call f a s))"

text \<open>
  Lines 192 to 196. Line 196 is \<open>button.interact()\<close> with no \<open>await\<close>: the coroutine is
  created and dropped.
\<close>

definition action_enter :: "app_state \<Rightarrow> result" where
  "action_enter s =
     (let s1 = s\<lparr>status := ''enter button''\<rparr>
      in case button_at s1 (focus_index_x s1) (focus_index_y s1) of
           Inl e \<Rightarrow> Inl (e, s1)
         | Inr button \<Rightarrow>
             if in_focus (heap s1 button)
             then (let dropped = interact button in Inr s1)
             else Inr s1)"

section \<open>The vocabulary of the specification\<close>

definition columns :: "app_state \<Rightarrow> int" where
  "columns s = len (buttons s)"

definition rows_in_column :: "app_state \<Rightarrow> int \<Rightarrow> int" where
  "rows_in_column s x = len (buttons s ! nat x)"

definition valid_position :: "app_state \<Rightarrow> int \<Rightarrow> int \<Rightarrow> bool" where
  "valid_position s x y \<longleftrightarrow> 0 \<le> x \<and> x < columns s \<and> 0 \<le> y \<and> y < rows_in_column s x"

definition valid_focus :: "app_state \<Rightarrow> bool" where
  "valid_focus s \<longleftrightarrow> valid_position s (focus_index_x s) (focus_index_y s)"

text \<open>The widget reference in a cell that exists.\<close>

definition widget :: "app_state \<Rightarrow> int \<Rightarrow> int \<Rightarrow> ref" where
  "widget s x y = buttons s ! nat x ! nat y"

text \<open>The references of the grid whose button has its flag set.\<close>

definition focused_widgets :: "app_state \<Rightarrow> ref set" where
  "focused_widgets s = {r \<in> set (concat (buttons s)). in_focus (heap s r)}"

text \<open>The references of the grid whose flag differs between two states.\<close>

definition toggled_widgets :: "app_state \<Rightarrow> app_state \<Rightarrow> ref set" where
  "toggled_widgets s s' =
     {r \<in> set (concat (buttons s)). in_focus (heap s' r) \<noteq> in_focus (heap s r)}"

text \<open>The error a call raised, if any.\<close>

definition raised :: "result \<Rightarrow> py_error option" where
  "raised r = (case r of Inl (e, s) \<Rightarrow> Some e | Inr s \<Rightarrow> None)"

text \<open>
  The store after lines 171 and 172 both succeeded: the button behind \<open>p\<close> cleared, then
  the button behind \<open>n\<close> set. When \<open>p = n\<close> the second write wins.
\<close>

definition refocus :: "(ref \<Rightarrow> MyButton) \<Rightarrow> ref \<Rightarrow> ref \<Rightarrow> (ref \<Rightarrow> MyButton)" where
  "refocus h p n =
     (let h1 = h(p := (h p)\<lparr>in_focus := False\<rparr>)
      in h1(n := (h1 n)\<lparr>in_focus := True\<rparr>))"

text \<open>A grid all of whose columns have the same number of rows.\<close>

definition rectangular :: "app_state \<Rightarrow> bool" where
  "rectangular s \<longleftrightarrow> (\<forall>c \<in> set (buttons s). \<forall>c' \<in> set (buttons s). length c = length c')"

text \<open>
  An argument none of whose comparisons raises and whose \<open>repr\<close> can be taken; every
  member is one.
\<close>

definition quiet :: "direction_arg \<Rightarrow> bool" where
  "quiet direction \<longleftrightarrow>
     \<not> isl (equals direction UP) \<and> \<not> isl (equals direction DOWN) \<and>
     \<not> isl (equals direction LEFT) \<and> \<not> isl (equals direction RIGHT) \<and>
     \<not> isl (repr direction)"

text \<open>
  The states the application as built by \<open>on_mount\<close> can be in: its grid, row 0, and
  one of the two columns.
\<close>

definition constructed :: "app_state \<Rightarrow> bool" where
  "constructed s \<longleftrightarrow>
     buttons s = [[0], [1]] \<and> focus_index_y s = 0 \<and> (focus_index_x s = 0 \<or> focus_index_x s = 1)"

section \<open>Example states\<close>

text \<open>
  A freshly mounted application over an arbitrary grid of plain buttons, and two ragged
  grids: one whose second column is the taller, one whose first column is.
\<close>

definition plain_button :: MyButton where
  "plain_button = MyButton_init None None None"

definition mounted :: "ref list list \<Rightarrow> app_state" where
  "mounted g =
     \<lparr>buttons = g, heap = (\<lambda>r. plain_button), focus_index_x = 0, focus_index_y = 0,
      status = ''--'', status_value = ''-'', calls = []\<rparr>"

definition tall_right :: app_state where
  "tall_right = mounted [[0], [1, 2]]"

definition tall_left :: app_state where
  "tall_left = mounted [[0, 1], [2]]"

text \<open>The focus at the top of the second column.\<close>

definition at_top_right :: app_state where
  "at_top_right = final_state (moves tall_right [Member RIGHT])"

text \<open>The focus at the bottom of the taller column, reached by key presses.\<close>

definition at_bottom_right :: app_state where
  "at_bottom_right = final_state (moves tall_right [Member RIGHT, Member DOWN])"

definition at_bottom_left :: app_state where
  "at_bottom_left = final_state (moves tall_left [Member DOWN])"

text \<open>The built application after RIGHT and LEFT: the focus is back on the START button.\<close>

definition start_focused :: app_state where
  "start_focused = final_state (moves on_mount [Member RIGHT, Member LEFT])"

text \<open>
  Three objects that are no members: \<open>None\<close>, which equals no member; an object that
  answers every comparison with true, as \<open>unittest.mock.ANY\<close> does; and an object that
  equals no member and whose \<open>__repr__\<close> raises.
\<close>

definition none_object :: direction_arg where
  "none_object = NonMember (\<lambda>m. Inr False) (Inr ''None'')"

definition any_object :: direction_arg where
  "any_object = NonMember (\<lambda>m. Inr True) (Inr ''<ANY>'')"

definition unprintable_object :: direction_arg where
  "unprintable_object = NonMember (\<lambda>m. Inr False) (Inl (OtherError ''RuntimeError''))"

section \<open>Subscripts and cells\<close>

lemma subscript_inside: "0 \<le> i \<Longrightarrow> i < len xs \<Longrightarrow> subscript xs i = Inr (xs ! nat i)"
  by (simp add: subscript_def)

lemma subscript_outside: "0 \<le> i \<Longrightarrow> \<not> i < len xs \<Longrightarrow> subscript xs i = Inl IndexError"
  by (simp add: subscript_def)

lemma button_at_valid: "valid_position s x y \<Longrightarrow> button_at s x y = Inr (widget s x y)"
  by (simp add: valid_position_def button_at_def columns_def rows_in_column_def widget_def
      subscript_inside)

lemma button_at_invalid:
  "0 \<le> x \<Longrightarrow> 0 \<le> y \<Longrightarrow> \<not> valid_position s x y \<Longrightarrow> button_at s x y = Inl IndexError"
  by (cases "x < len (buttons s)")
    (simp_all add: valid_position_def button_at_def columns_def rows_in_column_def
      subscript_inside subscript_outside)

lemma valid_position_buttons:
  "buttons s' = buttons s \<Longrightarrow> valid_position s' x y = valid_position s x y"
  by (simp add: valid_position_def columns_def rows_in_column_def)

lemma widget_buttons: "buttons s' = buttons s \<Longrightarrow> widget s' x y = widget s x y"
  by (simp add: widget_def)

lemma widget_in_grid: "valid_position s x y \<Longrightarrow> widget s x y \<in> set (concat (buttons s))"
proof -
  assume v: "valid_position s x y"
  then have "nat x < length (buttons s)"
    by (simp add: valid_position_def columns_def len_def nat_less_iff)
  then have c: "buttons s ! nat x \<in> set (buttons s)" by simp
  from v have "nat y < length (buttons s ! nat x)"
    by (simp add: valid_position_def rows_in_column_def len_def nat_less_iff)
  then have "buttons s ! nat x ! nat y \<in> set (buttons s ! nat x)" by simp
  with c show ?thesis by (auto simp: widget_def)
qed

lemma set_in_focus_valid:
  "valid_position s x y \<Longrightarrow>
   set_in_focus s x y v =
     Inr (s\<lparr>heap := (heap s)(widget s x y := (heap s (widget s x y))\<lparr>in_focus := v\<rparr>)\<rparr>)"
  by (simp add: set_in_focus_def button_at_valid)

lemma set_in_focus_invalid:
  "0 \<le> x \<Longrightarrow> 0 \<le> y \<Longrightarrow> \<not> valid_position s x y \<Longrightarrow>
   set_in_focus s x y v = Inl (IndexError, s)"
  by (simp add: set_in_focus_def button_at_invalid)

lemma in_focus_refocus:
  "in_focus (refocus h p n r) \<longleftrightarrow> r = n \<or> (r \<noteq> p \<and> in_focus (h r))"
  by (simp add: refocus_def Let_def)

lemma refocus_other: "r \<noteq> p \<Longrightarrow> r \<noteq> n \<Longrightarrow> refocus h p n r = h r"
  by (simp add: refocus_def Let_def)

lemma refocus_flag_only: "refocus h p n r = (h r)\<lparr>in_focus := in_focus (refocus h p n r)\<rparr>"
  by (simp add: refocus_def Let_def)

section \<open>The new indices\<close>

text \<open>A member takes its own branch: the four branches as the source writes them.\<close>

lemma new_focus_index_Member [simp]:
  "new_focus_index s (Member UP) =
     Inr (s, focus_index_x s, (if focus_index_y s \<le> 0 then 0 else focus_index_y s - 1))"
  "new_focus_index s (Member DOWN) =
     (case subscript (buttons s) (focus_index_x s) of
        Inl e \<Rightarrow> Inl (e, s)
      | Inr col \<Rightarrow>
          Inr (s, focus_index_x s,
               (if focus_index_y s \<ge> len col - 1 then len col - 1 else focus_index_y s + 1)))"
  "new_focus_index s (Member LEFT) =
     Inr (s, (if focus_index_x s \<le> 0 then 0 else focus_index_x s - 1), focus_index_y s)"
  "new_focus_index s (Member RIGHT) =
     Inr (s, (if focus_index_x s \<le> len (buttons s) - 1 then len (buttons s) - 1
              else focus_index_x s + 1),
          focus_index_y s)"
  by (simp_all add: new_focus_index_def equals_def)

lemma outcome_cases:
  fixes x :: "py_error + bool"
  obtains e where "x = Inl e" | "x = Inr True" | "x = Inr False"
  by (cases x) auto

text \<open>
  Any argument either raises in a comparison or in its \<open>repr\<close>, with nothing written, or
  takes the branch of some member, or reaches the final \<open>else\<close>.
\<close>

lemma new_focus_index_cases:
  "(\<exists>e. new_focus_index s d = Inl (e, s)) \<or>
   (\<exists>m. new_focus_index s d = new_focus_index s (Member m)) \<or>
   (\<exists>r. new_focus_index s d = Inr (s\<lparr>status := ''ERROR: Undefined direction='' @ r\<rparr>, 0, 0))"
proof (cases d)
  case (Member m)
  then show ?thesis by blast
next
  case (NonMember eq r)
  have up: "eq UP = Inr True \<Longrightarrow> new_focus_index s d = new_focus_index s (Member UP)"
    by (simp add: NonMember new_focus_index_def equals_def)
  have down: "eq UP = Inr False \<Longrightarrow> eq DOWN = Inr True \<Longrightarrow>
      new_focus_index s d = new_focus_index s (Member DOWN)"
    by (simp add: NonMember new_focus_index_def equals_def)
  have left: "eq UP = Inr False \<Longrightarrow> eq DOWN = Inr False \<Longrightarrow> eq LEFT = Inr True \<Longrightarrow>
      new_focus_index s d = new_focus_index s (Member LEFT)"
    by (simp add: NonMember new_focus_index_def equals_def)
  have right: "eq UP = Inr False \<Longrightarrow> eq DOWN = Inr False \<Longrightarrow> eq LEFT = Inr False \<Longrightarrow>
      eq RIGHT = Inr True \<Longrightarrow> new_focus_index s d = new_focus_index s (Member RIGHT)"
    by (simp add: NonMember new_focus_index_def equals_def)
  have other: "eq UP = Inr False \<Longrightarrow> eq DOWN = Inr False \<Longrightarrow> eq LEFT = Inr False \<Longrightarrow>
      eq RIGHT = Inr False \<Longrightarrow>
      new_focus_index s d =
        (case r of Inl e \<Rightarrow> Inl (e, s)
         | Inr q \<Rightarrow> Inr (s\<lparr>status := ''ERROR: Undefined direction='' @ q\<rparr>, 0, 0))"
    by (simp add: NonMember new_focus_index_def equals_def repr_def)
  have fail: "eq UP = Inl e \<or> (eq UP = Inr False \<and> (eq DOWN = Inl e \<or> (eq DOWN = Inr False \<and>
      (eq LEFT = Inl e \<or> (eq LEFT = Inr False \<and> eq RIGHT = Inl e))))) \<Longrightarrow>
      new_focus_index s d = Inl (e, s)" for e
    by (auto simp: NonMember new_focus_index_def equals_def)
  show ?thesis
  proof (cases "eq UP" rule: outcome_cases)
    case (1 e)
    with fail [of e] show ?thesis by blast
  next
    case 2
    from up [OF 2] show ?thesis by blast
  next
    case u: 3
    show ?thesis
    proof (cases "eq DOWN" rule: outcome_cases)
      case (1 e)
      with u fail [of e] show ?thesis by blast
    next
      case 2
      from down [OF u 2] show ?thesis by blast
    next
      case dn: 3
      show ?thesis
      proof (cases "eq LEFT" rule: outcome_cases)
        case (1 e)
        with u dn fail [of e] show ?thesis by blast
      next
        case 2
        from left [OF u dn 2] show ?thesis by blast
      next
        case l: 3
        show ?thesis
        proof (cases "eq RIGHT" rule: outcome_cases)
          case (1 e)
          with u dn l fail [of e] show ?thesis by blast
        next
          case 2
          from right [OF u dn l 2] show ?thesis by blast
        next
          case 3
          from other [OF u dn l 3] show ?thesis by (cases r) auto
        qed
      qed
    qed
  qed
qed

text \<open>An argument that equals no member and has a \<open>repr\<close> reaches the final \<open>else\<close>.\<close>

lemma new_focus_index_else:
  assumes "equals d UP = Inr False" and "equals d DOWN = Inr False"
    and "equals d LEFT = Inr False" and "equals d RIGHT = Inr False"
    and "repr d = Inr r"
  shows "new_focus_index s d = Inr (s\<lparr>status := ''ERROR: Undefined direction='' @ r\<rparr>, 0, 0)"
  using assms by (simp add: new_focus_index_def)

text \<open>A raise in the index computation has written nothing.\<close>

lemma new_focus_index_raise_state: "new_focus_index s d = Inl (e, s') \<Longrightarrow> s' = s"
proof -
  assume a: "new_focus_index s d = Inl (e, s')"
  have m: "new_focus_index s (Member m) = Inl (e, s') \<Longrightarrow> s' = s" for m
    by (cases m) (auto split: sum.splits)
  from new_focus_index_cases [of s d] a m show ?thesis by auto
qed

text \<open>From a valid focus a member's index computation never raises and never goes negative.\<close>

lemma new_focus_index_valid:
  assumes "valid_focus s"
  shows "\<exists>nx ny. new_focus_index s (Member m) = Inr (s, nx, ny) \<and> 0 \<le> nx \<and> 0 \<le> ny"
  using assms
  by (cases m)
    (auto simp: valid_focus_def valid_position_def columns_def rows_in_column_def
      subscript_inside)

lemma new_focus_index_nonneg:
  assumes v: "valid_focus s" and n: "new_focus_index s d = Inr (s1, nx, ny)"
  shows "0 \<le> nx \<and> 0 \<le> ny"
proof -
  from new_focus_index_cases [of s d] n
  consider m where "new_focus_index s (Member m) = Inr (s1, nx, ny)"
    | "nx = 0" "ny = 0"
    by auto
  then show ?thesis
  proof cases
    case 1
    with new_focus_index_valid [OF v, of m] show ?thesis by auto
  next
    case 2
    then show ?thesis by simp
  qed
qed

text \<open>It writes nothing but the status line.\<close>

lemma new_focus_index_frame:
  assumes n: "new_focus_index s d = Inr (s1, nx, ny)"
  shows "buttons s1 = buttons s \<and> heap s1 = heap s \<and> focus_index_x s1 = focus_index_x s \<and>
   focus_index_y s1 = focus_index_y s \<and> calls s1 = calls s \<and> status_value s1 = status_value s"
proof -
  have m: "new_focus_index s (Member m) = Inr (s1, nx, ny) \<Longrightarrow> s1 = s" for m
    by (cases m) (auto split: sum.splits)
  from new_focus_index_cases [of s d] n
  consider m where "new_focus_index s (Member m) = Inr (s1, nx, ny)"
    | r where "s1 = s\<lparr>status := ''ERROR: Undefined direction='' @ r\<rparr>"
    by auto
  then show ?thesis
  proof cases
    case 1
    from m [OF 1] show ?thesis by simp
  next
    case 2
    then show ?thesis by simp
  qed
qed

lemma new_focus_index_up:
  "new_focus_index s (Member UP) = Inr (s, focus_index_x s, max (focus_index_y s - 1) 0)"
  by (simp add: max_def)

lemma new_focus_index_down:
  "valid_focus s \<Longrightarrow>
   new_focus_index s (Member DOWN) =
     Inr (s, focus_index_x s, min (focus_index_y s + 1) (rows_in_column s (focus_index_x s) - 1))"
  by (simp add: valid_focus_def valid_position_def columns_def rows_in_column_def
      subscript_inside min_def)

lemma new_focus_index_left:
  "new_focus_index s (Member LEFT) = Inr (s, max (focus_index_x s - 1) 0, focus_index_y s)"
  by (simp add: max_def)

lemma new_focus_index_right:
  "valid_focus s \<Longrightarrow>
   new_focus_index s (Member RIGHT) = Inr (s, columns s - 1, focus_index_y s)"
  by (simp add: valid_focus_def valid_position_def columns_def)

text \<open>
  Past the last column the RIGHT branch would step one further; no valid focus gets there.
\<close>

lemma new_focus_index_right_beyond:
  "columns s - 1 < focus_index_x s \<Longrightarrow>
   new_focus_index s (Member RIGHT) = Inr (s, focus_index_x s + 1, focus_index_y s)"
  by (simp add: columns_def)

text \<open>The move depends on its argument through the index computation only.\<close>

lemma change_button_focus_cong:
  "new_focus_index s d = new_focus_index s d' \<Longrightarrow>
   change_button_focus s d = change_button_focus s d'"
  by (simp add: change_button_focus_def)

lemma change_button_focus_compare_raises:
  "new_focus_index s d = Inl (e, s') \<Longrightarrow> change_button_focus s d = Inl (e, s)"
  using new_focus_index_raise_state [of s d e s']
  by (simp add: change_button_focus_def)

section \<open>What one move does\<close>

text \<open>
  From a valid focus, a move whose new cell exists returns: the store is refocused from
  the previous button to the new one and the indices are the new ones.
\<close>

lemma change_button_focus_returns:
  assumes v: "valid_focus s"
    and n: "new_focus_index s d = Inr (s1, nx, ny)"
    and t: "valid_position s nx ny"
  shows "change_button_focus s d =
    Inr (s1\<lparr>heap := refocus (heap s) (widget s (focus_index_x s) (focus_index_y s)) (widget s nx ny),
            focus_index_x := nx, focus_index_y := ny\<rparr>)"
proof -
  from new_focus_index_frame [OF n]
  have b: "buttons s1 = buttons s" and h: "heap s1 = heap s" by simp_all
  let ?p = "widget s (focus_index_x s) (focus_index_y s)"
  let ?s2 = "s1\<lparr>heap := (heap s)(?p := (heap s ?p)\<lparr>in_focus := False\<rparr>)\<rparr>"
  from v have "valid_position s1 (focus_index_x s) (focus_index_y s)"
    by (simp add: valid_focus_def valid_position_buttons [OF b])
  then have 1: "set_in_focus s1 (focus_index_x s) (focus_index_y s) False = Inr ?s2"
    by (simp add: set_in_focus_valid widget_buttons [OF b] h)
  have b2: "buttons ?s2 = buttons s" using b by simp
  from t have "valid_position ?s2 nx ny"
    by (simp add: valid_position_buttons [OF b2])
  then have 2: "set_in_focus ?s2 nx ny True =
      Inr (?s2\<lparr>heap := (heap ?s2)(widget s nx ny := (heap ?s2 (widget s nx ny))\<lparr>in_focus := True\<rparr>)\<rparr>)"
    by (simp add: set_in_focus_valid widget_buttons [OF b2])
  show ?thesis
    unfolding change_button_focus_def Let_def n
    by (simp add: 1 2 refocus_def Let_def)
qed

text \<open>
  From a valid focus, a move whose new cell does not exist raises \<open>IndexError\<close> at line
  172: the previous button is already cleared, the indices are not yet stored.
\<close>

lemma change_button_focus_raises:
  assumes v: "valid_focus s"
    and n: "new_focus_index s d = Inr (s1, nx, ny)"
    and t: "\<not> valid_position s nx ny"
  shows "change_button_focus s d =
    Inl (IndexError,
         s1\<lparr>heap := (heap s)(widget s (focus_index_x s) (focus_index_y s) :=
                 (heap s (widget s (focus_index_x s) (focus_index_y s)))\<lparr>in_focus := False\<rparr>)\<rparr>)"
proof -
  from new_focus_index_frame [OF n]
  have b: "buttons s1 = buttons s" and h: "heap s1 = heap s" by simp_all
  from new_focus_index_nonneg [OF v n] have pos: "0 \<le> nx" "0 \<le> ny" by simp_all
  let ?p = "widget s (focus_index_x s) (focus_index_y s)"
  let ?s2 = "s1\<lparr>heap := (heap s)(?p := (heap s ?p)\<lparr>in_focus := False\<rparr>)\<rparr>"
  from v have "valid_position s1 (focus_index_x s) (focus_index_y s)"
    by (simp add: valid_focus_def valid_position_buttons [OF b])
  then have 1: "set_in_focus s1 (focus_index_x s) (focus_index_y s) False = Inr ?s2"
    by (simp add: set_in_focus_valid widget_buttons [OF b] h)
  have b2: "buttons ?s2 = buttons s" using b by simp
  from t have "\<not> valid_position ?s2 nx ny"
    by (simp add: valid_position_buttons [OF b2])
  with pos have 2: "set_in_focus ?s2 nx ny True = Inl (IndexError, ?s2)"
    by (simp add: set_in_focus_invalid)
  show ?thesis
    unfolding change_button_focus_def Let_def n
    by (simp add: 1 2)
qed

lemma returns_valid:
  assumes v: "valid_focus s"
    and n: "new_focus_index s d = Inr (s1, nx, ny)"
    and t: "valid_position s nx ny"
  shows "\<exists>s'. change_button_focus s d = Inr s' \<and> buttons s' = buttons s \<and>
           focus_index_x s' = nx \<and> focus_index_y s' = ny \<and> valid_focus s' \<and>
           heap s' = refocus (heap s) (widget s (focus_index_x s) (focus_index_y s)) (widget s nx ny)"
proof -
  let ?s' = "s1\<lparr>heap := refocus (heap s) (widget s (focus_index_x s) (focus_index_y s)) (widget s nx ny),
            focus_index_x := nx, focus_index_y := ny\<rparr>"
  from new_focus_index_frame [OF n] have b: "buttons ?s' = buttons s" by simp
  have "valid_focus ?s'"
    using t by (simp add: valid_focus_def valid_position_buttons [OF b])
  with change_button_focus_returns [OF v n t] b show ?thesis by simp
qed

text \<open>
  The new cell of a vertical move always exists; on a rectangular grid the new cell of
  every move does.
\<close>

lemma vertical_target_exists:
  assumes "valid_focus s"
  shows "valid_position s (focus_index_x s) (max (focus_index_y s - 1) 0)"
    and "valid_position s (focus_index_x s)
           (min (focus_index_y s + 1) (rows_in_column s (focus_index_x s) - 1))"
  using assms by (auto simp: valid_focus_def valid_position_def)

lemma rectangular_rows:
  assumes r: "rectangular s" and i: "0 \<le> i" "i < columns s" and j: "0 \<le> j" "j < columns s"
  shows "rows_in_column s i = rows_in_column s j"
proof -
  from i have a: "buttons s ! nat i \<in> set (buttons s)"
    by (simp add: columns_def len_def nat_less_iff)
  from j have b: "buttons s ! nat j \<in> set (buttons s)"
    by (simp add: columns_def len_def nat_less_iff)
  from r a b have "length (buttons s ! nat i) = length (buttons s ! nat j)"
    unfolding rectangular_def by blast
  then show ?thesis
    by (simp add: rows_in_column_def len_def)
qed

lemma rectangular_member_target_exists:
  assumes r: "rectangular s" and v: "valid_focus s"
    and n: "new_focus_index s (Member m) = Inr (s1, nx, ny)"
  shows "valid_position s nx ny"
proof -
  from v have x: "0 \<le> focus_index_x s" "focus_index_x s < columns s"
    and y: "0 \<le> focus_index_y s" "focus_index_y s < rows_in_column s (focus_index_x s)"
    by (simp_all add: valid_focus_def valid_position_def)
  have row: "valid_position s i (focus_index_y s)" if "0 \<le> i" "i < columns s" for i
  proof -
    from rectangular_rows [OF r that x]
    have "rows_in_column s i = rows_in_column s (focus_index_x s)" .
    with that y show ?thesis by (simp only: valid_position_def)
  qed
  show ?thesis
  proof (cases m)
    case UP
    from n [unfolded UP new_focus_index_up]
    have "nx = focus_index_x s" "ny = max (focus_index_y s - 1) 0" by auto
    with vertical_target_exists(1) [OF v] show ?thesis by (simp only:)
  next
    case DOWN
    from n [unfolded DOWN new_focus_index_down [OF v]]
    have "nx = focus_index_x s"
      "ny = min (focus_index_y s + 1) (rows_in_column s (focus_index_x s) - 1)" by auto
    with vertical_target_exists(2) [OF v] show ?thesis by (simp only:)
  next
    case LEFT
    from n [unfolded LEFT new_focus_index_left]
    have e: "nx = max (focus_index_x s - 1) 0" "ny = focus_index_y s" by auto
    from x have "valid_position s (max (focus_index_x s - 1) 0) (focus_index_y s)"
      by (intro row) simp_all
    then show ?thesis by (simp only: e)
  next
    case RIGHT
    from n [unfolded RIGHT new_focus_index_right [OF v]]
    have e: "nx = columns s - 1" "ny = focus_index_y s" by auto
    from x have "valid_position s (columns s - 1) (focus_index_y s)"
      by (intro row) simp_all
    then show ?thesis by (simp only: e)
  qed
qed

lemma rectangular_target_exists:
  assumes r: "rectangular s" and v: "valid_focus s"
    and n: "new_focus_index s d = Inr (s1, nx, ny)"
  shows "valid_position s nx ny"
proof -
  from new_focus_index_cases [of s d] n
  consider m where "new_focus_index s (Member m) = Inr (s1, nx, ny)"
    | "nx = 0" "ny = 0"
    by auto
  then show ?thesis
  proof cases
    case 1
    from rectangular_member_target_exists [OF r v 1] show ?thesis .
  next
    case 2
    from v have x: "0 \<le> focus_index_x s" "focus_index_x s < columns s"
      and y: "0 \<le> focus_index_y s" "focus_index_y s < rows_in_column s (focus_index_x s)"
      by (simp_all add: valid_focus_def valid_position_def)
    from x have z: "0 \<le> (0::int)" "0 < columns s" by simp_all
    from rectangular_rows [OF r z x]
    have "rows_in_column s 0 = rows_in_column s (focus_index_x s)" .
    with y z show ?thesis unfolding 2 by (simp add: valid_position_def)
  qed
qed

section \<open>Evaluation of the example states\<close>

lemmas run_simps =
  change_button_focus_def set_in_focus_def button_at_def subscript_def len_def
  final_state_def raised_def mounted_def plain_button_def MyButton_init_def
  valid_focus_def valid_position_def columns_def rows_in_column_def widget_def
  focused_widgets_def toggled_widgets_def on_mount_def Let_def

lemmas ex_simps =
  tall_right_def tall_left_def at_top_right_def at_bottom_right_def at_bottom_left_def
  start_focused_def
  run_simps

lemmas arg_simps =
  none_object_def any_object_def unprintable_object_def new_focus_index_def equals_def
  repr_def quiet_def

section \<open>Vertical moves\<close>

lemma down_valid:
  assumes "valid_focus s"
  shows "\<exists>s'. change_button_focus s (Member DOWN) = Inr s' \<and> buttons s' = buttons s \<and>
           focus_index_x s' = focus_index_x s \<and>
           focus_index_y s' = min (focus_index_y s + 1) (rows_in_column s (focus_index_x s) - 1) \<and>
           valid_focus s'"
  using returns_valid [OF assms new_focus_index_down [OF assms] vertical_target_exists(2) [OF assms]]
  by blast

lemma up_valid:
  assumes "valid_focus s"
  shows "\<exists>s'. change_button_focus s (Member UP) = Inr s' \<and> buttons s' = buttons s \<and>
           focus_index_x s' = focus_index_x s \<and>
           focus_index_y s' = max (focus_index_y s - 1) 0 \<and> valid_focus s'"
  using returns_valid [OF assms new_focus_index_up vertical_target_exists(1) [OF assms]]
  by blast

text \<open>
  C6: for every valid position \<open>(x, y)\<close>, \<open>move(DOWN)\<close> returns with
  \<open>y' = min(y + 1, rows_in_column(x) - 1)\<close> and \<open>x' = x\<close>.
\<close>

theorem move_down:
  assumes "valid_focus s"
  shows "\<exists>s'. change_button_focus s (Member DOWN) = Inr s' \<and>
           focus_index_y s' = min (focus_index_y s + 1) (rows_in_column s (focus_index_x s) - 1) \<and>
           focus_index_x s' = focus_index_x s"
  using down_valid [OF assms] by blast

theorem move_down_witness:
  "valid_focus tall_left \<and>
   raised (change_button_focus tall_left (Member DOWN)) = None \<and>
   focus_index_y (final_state (change_button_focus tall_left (Member DOWN))) = 1 \<and>
   focus_index_x (final_state (change_button_focus tall_left (Member DOWN))) = 0"
proof -
  have v: "valid_focus tall_left" by (simp add: ex_simps)
  from move_down [OF v] obtain s' where
    "change_button_focus tall_left (Member DOWN) = Inr s'"
    "focus_index_y s' =
       min (focus_index_y tall_left + 1) (rows_in_column tall_left (focus_index_x tall_left) - 1)"
    "focus_index_x s' = focus_index_x tall_left"
    by blast
  with v show ?thesis
    by (simp add: final_state_def raised_def rows_in_column_def len_def tall_left_def mounted_def)
qed

text \<open>Repeated DOWN: after \<open>n\<close> moves the row is \<open>min(y + n, rows_in_column(x) - 1)\<close>.\<close>

lemma repeated_down:
  "valid_focus s \<Longrightarrow>
   \<exists>s'. moves s (replicate n (Member DOWN)) = Inr s' \<and> focus_index_x s' = focus_index_x s \<and>
         focus_index_y s' = min (focus_index_y s + int n) (rows_in_column s (focus_index_x s) - 1)"
proof (induction n arbitrary: s)
  case 0
  then show ?case
    by (simp add: valid_focus_def valid_position_def)
next
  case (Suc n)
  from down_valid [OF Suc.prems] obtain t where
    t: "change_button_focus s (Member DOWN) = Inr t" "buttons t = buttons s"
      "focus_index_x t = focus_index_x s"
      "focus_index_y t = min (focus_index_y s + 1) (rows_in_column s (focus_index_x s) - 1)"
      "valid_focus t"
    by blast
  from Suc.IH [OF t(5)] obtain s' where
    s': "moves t (replicate n (Member DOWN)) = Inr s'" "focus_index_x s' = focus_index_x t"
      "focus_index_y s' = min (focus_index_y t + int n) (rows_in_column t (focus_index_x t) - 1)"
    by blast
  have r: "rows_in_column t (focus_index_x t) = rows_in_column s (focus_index_x s)"
    using t(2,3) by (simp add: rows_in_column_def)
  have "min (min (focus_index_y s + 1) (rows_in_column s (focus_index_x s) - 1) + int n)
          (rows_in_column s (focus_index_x s) - 1) =
        min (focus_index_y s + int (Suc n)) (rows_in_column s (focus_index_x s) - 1)"
    by simp
  with t s' r show ?case by simp
qed

text \<open>Repeated UP: after \<open>n\<close> moves the row is \<open>max(y - n, 0)\<close>.\<close>

lemma repeated_up:
  "valid_focus s \<Longrightarrow>
   \<exists>s'. moves s (replicate n (Member UP)) = Inr s' \<and> focus_index_x s' = focus_index_x s \<and>
         focus_index_y s' = max (focus_index_y s - int n) 0"
proof (induction n arbitrary: s)
  case 0
  then show ?case
    by (simp add: valid_focus_def valid_position_def)
next
  case (Suc n)
  from up_valid [OF Suc.prems] obtain t where
    t: "change_button_focus s (Member UP) = Inr t" "focus_index_x t = focus_index_x s"
      "focus_index_y t = max (focus_index_y s - 1) 0" "valid_focus t"
    by blast
  from Suc.IH [OF t(4)] obtain s' where
    s': "moves t (replicate n (Member UP)) = Inr s'" "focus_index_x s' = focus_index_x t"
      "focus_index_y s' = max (focus_index_y t - int n) 0"
    by blast
  have "max (max (focus_index_y s - 1) 0 - int n) 0 = max (focus_index_y s - int (Suc n)) 0"
    by simp
  with t s' show ?case by simp
qed

text \<open>
  C7: for every valid position \<open>(x, y)\<close>, one \<open>move(UP)\<close> returns with
  \<open>y' = max(y - 1, 0)\<close> and \<open>x\<close> unchanged; \<open>n\<close> repeated UP moves all return, leave \<open>x\<close>
  unchanged and give the row \<open>max(y - n, 0)\<close>, which is 0 as soon as \<open>n \<ge> y\<close> and stays
  0 from then on; UP at \<open>y = 0\<close> leaves the position as it is.
\<close>

theorem move_up:
  assumes "valid_focus s"
  shows "(\<exists>s'. change_button_focus s (Member UP) = Inr s' \<and>
            focus_index_y s' = max (focus_index_y s - 1) 0 \<and>
            focus_index_x s' = focus_index_x s) \<and>
         (\<forall>n. \<exists>s'. moves s (replicate n (Member UP)) = Inr s' \<and>
            focus_index_x s' = focus_index_x s \<and>
            focus_index_y s' = max (focus_index_y s - int n) 0 \<and>
            (nat (focus_index_y s) \<le> n \<longrightarrow> focus_index_y s' = 0)) \<and>
         (focus_index_y s = 0 \<longrightarrow>
            (\<exists>s'. change_button_focus s (Member UP) = Inr s' \<and>
               focus_index_x s' = focus_index_x s \<and> focus_index_y s' = focus_index_y s))"
proof (intro conjI allI impI)
  from up_valid [OF assms]
  show "\<exists>s'. change_button_focus s (Member UP) = Inr s' \<and>
            focus_index_y s' = max (focus_index_y s - 1) 0 \<and>
            focus_index_x s' = focus_index_x s"
    by blast
next
  fix n
  from repeated_up [OF assms, of n] obtain s' where
    s': "moves s (replicate n (Member UP)) = Inr s'" "focus_index_x s' = focus_index_x s"
      "focus_index_y s' = max (focus_index_y s - int n) 0"
    by blast
  then have "nat (focus_index_y s) \<le> n \<longrightarrow> focus_index_y s' = 0"
    by auto
  with s' show "\<exists>s'. moves s (replicate n (Member UP)) = Inr s' \<and>
            focus_index_x s' = focus_index_x s \<and>
            focus_index_y s' = max (focus_index_y s - int n) 0 \<and>
            (nat (focus_index_y s) \<le> n \<longrightarrow> focus_index_y s' = 0)"
    by blast
next
  assume "focus_index_y s = 0"
  with up_valid [OF assms]
  show "\<exists>s'. change_button_focus s (Member UP) = Inr s' \<and>
               focus_index_x s' = focus_index_x s \<and> focus_index_y s' = focus_index_y s"
    by auto
qed

theorem move_up_witness:
  "valid_focus at_bottom_left \<and> focus_index_y at_bottom_left = 1 \<and>
   raised (change_button_focus at_bottom_left (Member UP)) = None \<and>
   focus_index_y (final_state (change_button_focus at_bottom_left (Member UP))) = 0 \<and>
   focus_index_x (final_state (change_button_focus at_bottom_left (Member UP))) = 0 \<and>
   raised (moves at_bottom_left (replicate 3 (Member UP))) = None \<and>
   focus_index_y (final_state (moves at_bottom_left (replicate 3 (Member UP)))) = 0"
proof -
  have v: "valid_focus at_bottom_left" by (simp add: ex_simps)
  have y: "focus_index_y at_bottom_left = 1" by (simp add: ex_simps)
  note up = move_up [OF v]
  from up obtain s1 where
    s1: "change_button_focus at_bottom_left (Member UP) = Inr s1"
      "focus_index_y s1 = max (focus_index_y at_bottom_left - 1) 0"
      "focus_index_x s1 = focus_index_x at_bottom_left"
    by blast
  from up have "\<exists>s'. moves at_bottom_left (replicate 3 (Member UP)) = Inr s' \<and>
      focus_index_x s' = focus_index_x at_bottom_left \<and>
      focus_index_y s' = max (focus_index_y at_bottom_left - int 3) 0 \<and>
      (nat (focus_index_y at_bottom_left) \<le> 3 \<longrightarrow> focus_index_y s' = 0)"
    by blast
  then obtain s3 where
    s3: "moves at_bottom_left (replicate 3 (Member UP)) = Inr s3"
      "focus_index_y s3 = max (focus_index_y at_bottom_left - int 3) 0"
    by blast
  have x: "focus_index_x at_bottom_left = 0" by (simp add: ex_simps)
  from v y x s1 s3 show ?thesis
    by (simp add: final_state_def raised_def)
qed

section \<open>Horizontal moves\<close>

text \<open>
  C5, as the code has it: for every valid position \<open>(x, y)\<close> whose destination cell
  \<open>(max(x - 1, 0), y)\<close> exists, \<open>move(LEFT)\<close> returns with \<open>x' = max(x - 1, 0)\<close> and
  \<open>y' = y\<close>; the row is not reclamped.
\<close>

theorem move_left:
  assumes "valid_focus s"
    and "valid_position s (max (focus_index_x s - 1) 0) (focus_index_y s)"
  shows "\<exists>s'. change_button_focus s (Member LEFT) = Inr s' \<and>
           focus_index_x s' = max (focus_index_x s - 1) 0 \<and>
           focus_index_y s' = focus_index_y s"
  using returns_valid [OF assms(1) new_focus_index_left assms(2)] by blast

theorem move_left_witness:
  "valid_focus at_top_right \<and>
   valid_position at_top_right (max (focus_index_x at_top_right - 1) 0) (focus_index_y at_top_right) \<and>
   focus_index_x at_top_right = 1 \<and>
   raised (change_button_focus at_top_right (Member LEFT)) = None \<and>
   focus_index_x (final_state (change_button_focus at_top_right (Member LEFT))) = 0 \<and>
   focus_index_y (final_state (change_button_focus at_top_right (Member LEFT))) = 0"
proof -
  have v: "valid_focus at_top_right" by (simp add: ex_simps)
  have t: "valid_position at_top_right (max (focus_index_x at_top_right - 1) 0)
      (focus_index_y at_top_right)"
    by (simp add: ex_simps)
  have p: "focus_index_x at_top_right = 1" "focus_index_y at_top_right = 0"
    by (simp_all add: ex_simps)
  from move_left [OF v t] obtain s' where
    "change_button_focus at_top_right (Member LEFT) = Inr s'"
    "focus_index_x s' = max (focus_index_x at_top_right - 1) 0"
    "focus_index_y s' = focus_index_y at_top_right"
    by blast
  with v t p show ?thesis
    by (simp add: final_state_def raised_def)
qed

text \<open>
  C5 as stated fails on a ragged grid. In the grid with columns of 1 and 2 rows, LEFT
  from the valid position \<open>(1, 1)\<close> computes \<open>(0, 1)\<close>, which is no cell: line 172 raises
  \<open>IndexError\<close> and the column index stays 1, not \<open>max(1 - 1, 0) = 0\<close>.
\<close>

theorem move_left_counterexample:
  "valid_focus at_bottom_right \<and>
   focus_index_x at_bottom_right = 1 \<and> focus_index_y at_bottom_right = 1 \<and>
   raised (change_button_focus at_bottom_right (Member LEFT)) = Some IndexError \<and>
   focus_index_x (final_state (change_button_focus at_bottom_right (Member LEFT))) = 1 \<and>
   max (focus_index_x at_bottom_right - 1) 0 = 0"
  by (simp add: ex_simps)

text \<open>
  C1, as the code has it: for every valid position \<open>(x, y)\<close> for which the cell
  \<open>(columns - 1, y)\<close> exists, \<open>move(RIGHT)\<close> returns with \<open>x' = x\<close> unless
  \<open>x \<le> columns - 1\<close>, in which case \<open>x' = columns - 1\<close>; the condition holds at every
  valid position, so \<open>x' = columns - 1\<close>, and \<open>y' = y\<close>.
\<close>

theorem move_right:
  assumes "valid_focus s"
    and "valid_position s (columns s - 1) (focus_index_y s)"
  shows "\<exists>s'. change_button_focus s (Member RIGHT) = Inr s' \<and>
           focus_index_x s' =
             (if focus_index_x s \<le> columns s - 1 then columns s - 1 else focus_index_x s) \<and>
           focus_index_x s' = columns s - 1 \<and>
           focus_index_y s' = focus_index_y s"
proof -
  from assms(1) have "focus_index_x s \<le> columns s - 1"
    by (simp add: valid_focus_def valid_position_def)
  with returns_valid [OF assms(1) new_focus_index_right [OF assms(1)] assms(2)]
  show ?thesis by auto
qed

theorem move_right_witness:
  "valid_focus tall_right \<and>
   valid_position tall_right (columns tall_right - 1) (focus_index_y tall_right) \<and>
   raised (change_button_focus tall_right (Member RIGHT)) = None \<and>
   focus_index_x (final_state (change_button_focus tall_right (Member RIGHT))) = 1 \<and>
   focus_index_y (final_state (change_button_focus tall_right (Member RIGHT))) = 0"
proof -
  have v: "valid_focus tall_right" by (simp add: ex_simps)
  have t: "valid_position tall_right (columns tall_right - 1) (focus_index_y tall_right)"
    by (simp add: ex_simps)
  from move_right [OF v t] obtain s' where
    "change_button_focus tall_right (Member RIGHT) = Inr s'"
    "focus_index_x s' = columns tall_right - 1" "focus_index_y s' = focus_index_y tall_right"
    by blast
  with v t show ?thesis
    by (simp add: final_state_def raised_def columns_def len_def tall_right_def mounted_def)
qed

text \<open>
  C1 as stated fails on a ragged grid. In the grid with columns of 2 and 1 rows, RIGHT
  from the valid position \<open>(0, 1)\<close> computes \<open>(1, 1)\<close>, which is no cell: line 172 raises
  \<open>IndexError\<close> and the column index stays 0, not \<open>columns - 1 = 1\<close>.
\<close>

theorem move_right_counterexample:
  "valid_focus at_bottom_left \<and>
   focus_index_x at_bottom_left = 0 \<and> focus_index_y at_bottom_left = 1 \<and>
   columns at_bottom_left - 1 = 1 \<and>
   raised (change_button_focus at_bottom_left (Member RIGHT)) = Some IndexError \<and>
   focus_index_x (final_state (change_button_focus at_bottom_left (Member RIGHT))) = 0"
  by (simp add: ex_simps)

section \<open>The focus position stays valid\<close>

text \<open>
  One move from a valid focus, whatever its argument and whether it returns or raises,
  leaves a valid focus and the grid as it was: a comparison that raises has written
  nothing, and the indices are stored only after both cells have been reached.
\<close>

lemma step_keeps_valid_focus:
  assumes v: "valid_focus s"
  shows "valid_focus (final_state (change_button_focus s d)) \<and>
         buttons (final_state (change_button_focus s d)) = buttons s"
proof (cases "new_focus_index s d")
  case (Inl a)
  obtain e s' where "a = (e, s')" by (cases a)
  with Inl change_button_focus_compare_raises [of s d e s'] v show ?thesis
    by (simp add: final_state_def)
next
  case (Inr b)
  obtain s1 nx ny where "b = (s1, nx, ny)" by (cases b)
  with Inr have n: "new_focus_index s d = Inr (s1, nx, ny)" by simp
  note f = new_focus_index_frame [OF n]
  show ?thesis
  proof (cases "valid_position s nx ny")
    case True
    from returns_valid [OF v n True] show ?thesis
      by (auto simp: final_state_def)
  next
    case False
    let ?t = "s1\<lparr>heap := (heap s)(widget s (focus_index_x s) (focus_index_y s) :=
                 (heap s (widget s (focus_index_x s) (focus_index_y s)))\<lparr>in_focus := False\<rparr>)\<rparr>"
    have b: "buttons ?t = buttons s" using f by simp
    have "valid_focus ?t"
      using v f by (simp add: valid_focus_def valid_position_buttons [OF b])
    with b show ?thesis
      by (simp add: change_button_focus_raises [OF v n False] final_state_def)
  qed
qed

lemma moves_keep_valid_focus:
  "valid_focus s \<Longrightarrow>
   valid_focus (final_state (moves s ds)) \<and> buttons (final_state (moves s ds)) = buttons s"
proof (induction ds arbitrary: s)
  case Nil
  then show ?case by (simp add: final_state_def)
next
  case (Cons d ds)
  show ?case
  proof (cases "change_button_focus s d")
    case (Inl e)
    with step_keeps_valid_focus [OF Cons.prems, of d] show ?thesis by simp
  next
    case (Inr t)
    with step_keeps_valid_focus [OF Cons.prems, of d]
    have "valid_focus t" "buttons t = buttons s"
      by (simp_all add: final_state_def)
    with Cons.IH [of t] Inr show ?thesis by simp
  qed
qed

text \<open>The same when key presses keep arriving after a raise.\<close>

lemma moves_on_keep_valid_focus:
  "valid_focus s \<Longrightarrow> valid_focus (moves_on s ds) \<and> buttons (moves_on s ds) = buttons s"
proof (induction ds arbitrary: s)
  case Nil
  then show ?case by simp
next
  case (Cons d ds)
  from step_keeps_valid_focus [OF Cons.prems, of d]
  have "valid_focus (final_state (change_button_focus s d))"
    "buttons (final_state (change_button_focus s d)) = buttons s"
    by simp_all
  with Cons.IH [of "final_state (change_button_focus s d)"] show ?case by simp
qed

text \<open>
  C2: for every grid in which the starting position \<open>(0, 0)\<close> is a cell, ragged or not,
  and every sequence of moves from \<open>(0, 0)\<close>, the focus position in the state the sequence
  ends in (normally, or at the move that raised) satisfies \<open>0 \<le> x < columns\<close> and
  \<open>0 \<le> y < rows_in_column(x)\<close>. The sequence is arbitrary, so this holds after every move.
\<close>

theorem focus_position_always_valid:
  assumes "focus_index_x s = 0" and "focus_index_y s = 0" and "valid_position s 0 0"
  shows "0 \<le> focus_index_x (final_state (moves s ds)) \<and>
         focus_index_x (final_state (moves s ds)) < columns s \<and>
         0 \<le> focus_index_y (final_state (moves s ds)) \<and>
         focus_index_y (final_state (moves s ds)) <
           rows_in_column s (focus_index_x (final_state (moves s ds)))"
proof -
  from assms have "valid_focus s" by (simp add: valid_focus_def)
  from moves_keep_valid_focus [OF this, of ds]
  have f: "valid_focus (final_state (moves s ds))"
    and b: "buttons (final_state (moves s ds)) = buttons s"
    by simp_all
  from f have "valid_position s (focus_index_x (final_state (moves s ds)))
      (focus_index_y (final_state (moves s ds)))"
    by (simp add: valid_focus_def valid_position_buttons [OF b])
  then show ?thesis
    by (simp add: valid_position_def)
qed

theorem focus_position_always_valid_witness:
  "focus_index_x tall_right = 0 \<and> focus_index_y tall_right = 0 \<and>
   valid_position tall_right 0 0 \<and>
   raised (moves tall_right [Member RIGHT, Member DOWN, Member LEFT]) = Some IndexError \<and>
   focus_index_x (final_state (moves tall_right [Member RIGHT, Member DOWN, Member LEFT])) = 1 \<and>
   focus_index_y (final_state (moves tall_right [Member RIGHT, Member DOWN, Member LEFT])) = 1 \<and>
   focus_index_x (final_state (moves tall_right [Member RIGHT, Member DOWN, Member LEFT]))
     < columns tall_right \<and>
   focus_index_y (final_state (moves tall_right [Member RIGHT, Member DOWN, Member LEFT]))
     < rows_in_column tall_right
         (focus_index_x (final_state (moves tall_right [Member RIGHT, Member DOWN, Member LEFT])))"
proof -
  have x: "focus_index_x tall_right = 0" and y: "focus_index_y tall_right = 0"
    by (simp_all add: ex_simps)
  have z: "valid_position tall_right 0 0" by (simp add: ex_simps)
  have r: "raised (moves tall_right [Member RIGHT, Member DOWN, Member LEFT]) = Some IndexError"
    by (simp add: ex_simps)
  have p: "focus_index_x (final_state (moves tall_right [Member RIGHT, Member DOWN, Member LEFT])) = 1"
    "focus_index_y (final_state (moves tall_right [Member RIGHT, Member DOWN, Member LEFT])) = 1"
    by (simp_all add: ex_simps)
  from focus_position_always_valid [OF x y z, of "[Member RIGHT, Member DOWN, Member LEFT]"]
  show ?thesis using x y z r p by simp
qed

section \<open>Exactly one focused button\<close>

text \<open>
  C4, as the code has it: from a state in which exactly the widget at the focus position
  has its flag set, after any move whose destination cell exists (always so for UP and
  DOWN, and for every move on a rectangular grid) the move returns and exactly the widget
  at the new focus position has its flag set, all others of the grid have it clear;
  boundary self-loops included.
\<close>

theorem exactly_one_focused:
  assumes v: "valid_focus s"
    and one: "focused_widgets s = {widget s (focus_index_x s) (focus_index_y s)}"
    and n: "new_focus_index s d = Inr (s1, nx, ny)"
    and t: "valid_position s nx ny"
  shows "\<exists>s'. change_button_focus s d = Inr s' \<and>
           focus_index_x s' = nx \<and> focus_index_y s' = ny \<and>
           focused_widgets s' = {widget s' (focus_index_x s') (focus_index_y s')}"
proof -
  from returns_valid [OF v n t] obtain s' where
    s': "change_button_focus s d = Inr s'" "buttons s' = buttons s"
      "focus_index_x s' = nx" "focus_index_y s' = ny"
      "heap s' = refocus (heap s) (widget s (focus_index_x s) (focus_index_y s)) (widget s nx ny)"
    by blast
  let ?p = "widget s (focus_index_x s) (focus_index_y s)"
  let ?n = "widget s nx ny"
  from one have old: "\<And>r. r \<in> set (concat (buttons s)) \<Longrightarrow> in_focus (heap s r) \<Longrightarrow> r = ?p"
    unfolding focused_widgets_def by blast
  have "focused_widgets s' = {?n}"
  proof (rule equalityI; rule subsetI)
    fix r assume "r \<in> focused_widgets s'"
    then have "r \<in> set (concat (buttons s))" "in_focus (refocus (heap s) ?p ?n r)"
      using s'(2,5) by (simp_all add: focused_widgets_def)
    with old [of r] show "r \<in> {?n}" by (auto simp: in_focus_refocus)
  next
    fix r assume "r \<in> {?n}"
    with widget_in_grid [OF t] show "r \<in> focused_widgets s'"
      using s'(2,5) by (simp add: focused_widgets_def in_focus_refocus)
  qed
  moreover have "widget s' (focus_index_x s') (focus_index_y s') = ?n"
    using s'(2,3,4) by (simp add: widget_def)
  ultimately show ?thesis using s' by simp
qed

theorem exactly_one_focused_witness:
  "valid_focus at_top_right \<and>
   focused_widgets at_top_right = {widget at_top_right (focus_index_x at_top_right) (focus_index_y at_top_right)} \<and>
   new_focus_index at_top_right (Member LEFT) = Inr (at_top_right, 0, 0) \<and>
   valid_position at_top_right 0 0 \<and>
   raised (change_button_focus at_top_right (Member LEFT)) = None \<and>
   focused_widgets (final_state (change_button_focus at_top_right (Member LEFT))) = {0}"
proof -
  have v: "valid_focus at_top_right" by (simp add: ex_simps)
  have one: "focused_widgets at_top_right =
      {widget at_top_right (focus_index_x at_top_right) (focus_index_y at_top_right)}"
    by (auto simp: ex_simps)
  have p: "focus_index_x at_top_right = 1" "focus_index_y at_top_right = 0"
    by (simp_all add: ex_simps)
  have n: "new_focus_index at_top_right (Member LEFT) = Inr (at_top_right, 0, 0)"
    by (simp add: p)
  have t: "valid_position at_top_right 0 0" by (simp add: ex_simps)
  have b: "buttons at_top_right = [[0], [1, 2]]" by (simp add: ex_simps)
  from exactly_one_focused [OF v one n t] obtain s' where
    s': "change_button_focus at_top_right (Member LEFT) = Inr s'"
      "focus_index_x s' = 0" "focus_index_y s' = 0"
      "focused_widgets s' = {widget s' (focus_index_x s') (focus_index_y s')}"
    by blast
  from step_keeps_valid_focus [OF v, of "Member LEFT"] s'(1) b
  have "buttons s' = [[0], [1, 2]]" by (simp add: final_state_def)
  with s' have "focused_widgets s' = {0}" by (simp add: widget_def)
  with v one n t s'(1) show ?thesis
    by (simp add: final_state_def raised_def)
qed

text \<open>
  C4 as stated fails on a ragged grid. In the grid with columns of 2 and 1 rows, with
  exactly the widget at the valid position \<open>(0, 1)\<close> focused, RIGHT clears that widget at
  line 171 and raises \<open>IndexError\<close> at line 172: no widget of the grid is focused after
  the move.
\<close>

theorem exactly_one_focused_counterexample:
  "valid_focus at_bottom_left \<and>
   focused_widgets at_bottom_left =
     {widget at_bottom_left (focus_index_x at_bottom_left) (focus_index_y at_bottom_left)} \<and>
   raised (change_button_focus at_bottom_left (Member RIGHT)) = Some IndexError \<and>
   focused_widgets (final_state (change_button_focus at_bottom_left (Member RIGHT))) = {}"
  by (auto simp add: ex_simps)

section \<open>A direction outside the enumeration\<close>

text \<open>
  C8, as the code has it: for every argument that compares unequal to each of UP, DOWN,
  LEFT and RIGHT and has a \<open>repr\<close>, from a valid focus on a grid whose cell \<open>(0, 0)\<close>
  exists (the Navigator's initial position), the move does not fail: it writes the error
  text to the status line and returns with the focus position \<open>(0, 0)\<close>, having cleared
  the flag of the widget at the previous position and then set the flag of the widget at
  \<open>(0, 0)\<close>.
\<close>

theorem undefined_direction_resets:
  assumes v: "valid_focus s" and z: "valid_position s 0 0"
    and ne: "equals d UP = Inr False" "equals d DOWN = Inr False"
      "equals d LEFT = Inr False" "equals d RIGHT = Inr False"
    and p: "repr d = Inr r"
  shows "\<exists>s'. change_button_focus s d = Inr s' \<and>
           focus_index_x s' = 0 \<and> focus_index_y s' = 0 \<and>
           heap s' = refocus (heap s) (widget s (focus_index_x s) (focus_index_y s)) (widget s 0 0) \<and>
           in_focus (heap s' (widget s 0 0)) \<and>
           (widget s (focus_index_x s) (focus_index_y s) \<noteq> widget s 0 0 \<longrightarrow>
              \<not> in_focus (heap s' (widget s (focus_index_x s) (focus_index_y s)))) \<and>
           status s' = ''ERROR: Undefined direction='' @ r"
proof -
  note n = new_focus_index_else [OF ne p, of s]
  from change_button_focus_returns [OF v n z] show ?thesis
    by (simp add: in_focus_refocus)
qed

theorem undefined_direction_resets_witness:
  "valid_focus at_bottom_right \<and> valid_position at_bottom_right 0 0 \<and>
   equals none_object UP = Inr False \<and> equals none_object DOWN = Inr False \<and>
   equals none_object LEFT = Inr False \<and> equals none_object RIGHT = Inr False \<and>
   repr none_object = Inr ''None'' \<and>
   widget at_bottom_right (focus_index_x at_bottom_right) (focus_index_y at_bottom_right) = 2 \<and>
   widget at_bottom_right 0 0 = 0 \<and>
   raised (change_button_focus at_bottom_right none_object) = None \<and>
   focus_index_x (final_state (change_button_focus at_bottom_right none_object)) = 0 \<and>
   focus_index_y (final_state (change_button_focus at_bottom_right none_object)) = 0 \<and>
   in_focus (heap (final_state (change_button_focus at_bottom_right none_object)) 0) \<and>
   \<not> in_focus (heap (final_state (change_button_focus at_bottom_right none_object)) 2) \<and>
   status (final_state (change_button_focus at_bottom_right none_object)) =
     ''ERROR: Undefined direction=None''"
proof -
  have v: "valid_focus at_bottom_right" by (simp add: ex_simps)
  have z: "valid_position at_bottom_right 0 0" by (simp add: ex_simps)
  have ne: "equals none_object UP = Inr False" "equals none_object DOWN = Inr False"
    "equals none_object LEFT = Inr False" "equals none_object RIGHT = Inr False"
    by (simp_all add: none_object_def equals_def)
  have r: "repr none_object = Inr ''None''" by (simp add: none_object_def repr_def)
  have p: "widget at_bottom_right (focus_index_x at_bottom_right) (focus_index_y at_bottom_right) = 2"
    by (simp add: ex_simps)
  have n: "widget at_bottom_right 0 0 = 0" by (simp add: ex_simps)
  from undefined_direction_resets [OF v z ne r] obtain s' where
    "change_button_focus at_bottom_right none_object = Inr s'"
    "focus_index_x s' = 0" "focus_index_y s' = 0"
    "in_focus (heap s' (widget at_bottom_right 0 0))"
    "widget at_bottom_right (focus_index_x at_bottom_right) (focus_index_y at_bottom_right)
       \<noteq> widget at_bottom_right 0 0 \<longrightarrow>
     \<not> in_focus (heap s'
          (widget at_bottom_right (focus_index_x at_bottom_right) (focus_index_y at_bottom_right)))"
    "status s' = ''ERROR: Undefined direction='' @ ''None''"
    by blast
  with v z ne r p n show ?thesis
    by (simp add: final_state_def raised_def)
qed

text \<open>
  C8 as stated fails for objects outside the enumeration that do not compare unequal
  to its members, or cannot be printed. With the focus at \<open>(1, 1)\<close> of the grid with
  columns of 1 and 2 rows: an object whose \<open>__eq__\<close> answers true to everything takes the
  first branch, UP, and the focus goes to \<open>(1, 0)\<close>, not to \<open>(0, 0)\<close>, with the status
  line untouched; an object that equals no member and whose \<open>__repr__\<close> raises makes the
  move fail in the last branch, with nothing reset.
\<close>

theorem undefined_direction_counterexample:
  "valid_focus at_bottom_right \<and> valid_position at_bottom_right 0 0 \<and>
   focus_index_x at_bottom_right = 1 \<and> focus_index_y at_bottom_right = 1 \<and>
   raised (change_button_focus at_bottom_right any_object) = None \<and>
   focus_index_x (final_state (change_button_focus at_bottom_right any_object)) = 1 \<and>
   focus_index_y (final_state (change_button_focus at_bottom_right any_object)) = 0 \<and>
   in_focus (heap (final_state (change_button_focus at_bottom_right any_object)) 1) \<and>
   \<not> in_focus (heap (final_state (change_button_focus at_bottom_right any_object)) 0) \<and>
   status (final_state (change_button_focus at_bottom_right any_object)) = ''--'' \<and>
   raised (change_button_focus at_bottom_right unprintable_object) =
     Some (OtherError ''RuntimeError'') \<and>
   focus_index_x (final_state (change_button_focus at_bottom_right unprintable_object)) = 1 \<and>
   focus_index_y (final_state (change_button_focus at_bottom_right unprintable_object)) = 1"
  by (simp add: ex_simps arg_simps)

section \<open>What a move writes and what it leaves alone\<close>

text \<open>
  The frame of a move with a member as argument, in the state it ends in: outside the
  previous and the new widget the store is as before, on every object nothing but the flag
  is written, and the grid, the status line, the status widget and the call log are as
  before.
\<close>

lemma move_frame:
  assumes v: "valid_focus s"
  shows "(\<forall>r. r \<noteq> widget s (focus_index_x s) (focus_index_y s) \<and>
              r \<noteq> widget s (focus_index_x (final_state (change_button_focus s (Member m))))
                     (focus_index_y (final_state (change_button_focus s (Member m)))) \<longrightarrow>
              heap (final_state (change_button_focus s (Member m))) r = heap s r) \<and>
         (\<forall>r. heap (final_state (change_button_focus s (Member m))) r =
              (heap s r)\<lparr>in_focus := in_focus (heap (final_state (change_button_focus s (Member m))) r)\<rparr>) \<and>
         buttons (final_state (change_button_focus s (Member m))) = buttons s \<and>
         status (final_state (change_button_focus s (Member m))) = status s \<and>
         status_value (final_state (change_button_focus s (Member m))) = status_value s \<and>
         calls (final_state (change_button_focus s (Member m))) = calls s"
proof -
  let ?p = "widget s (focus_index_x s) (focus_index_y s)"
  let ?f = "final_state (change_button_focus s (Member m))"
  from new_focus_index_valid [OF v, of m] obtain nx ny where
    n: "new_focus_index s (Member m) = Inr (s, nx, ny)"
    by blast
  show ?thesis
  proof (cases "valid_position s nx ny")
    case True
    from change_button_focus_returns [OF v n True]
    have f: "?f =
        s\<lparr>heap := refocus (heap s) ?p (widget s nx ny), focus_index_x := nx, focus_index_y := ny\<rparr>"
      by (simp add: final_state_def)
    have h: "heap ?f = refocus (heap s) ?p (widget s nx ny)"
      and c: "focus_index_x ?f = nx" "focus_index_y ?f = ny"
      and o: "buttons ?f = buttons s" "status ?f = status s"
        "status_value ?f = status_value s" "calls ?f = calls s"
      by (simp_all add: f)
    have 1: "\<forall>r. r \<noteq> ?p \<and> r \<noteq> widget s (focus_index_x ?f) (focus_index_y ?f) \<longrightarrow>
        heap ?f r = heap s r"
      by (simp add: h c refocus_other)
    have 2: "\<forall>r. heap ?f r = (heap s r)\<lparr>in_focus := in_focus (heap ?f r)\<rparr>"
      unfolding h by (intro allI) (rule refocus_flag_only)
    from 1 2 o show ?thesis by - (intro conjI, assumption+)
  next
    case False
    from change_button_focus_raises [OF v n False]
    have f: "?f = s\<lparr>heap := (heap s)(?p := (heap s ?p)\<lparr>in_focus := False\<rparr>)\<rparr>"
      by (simp add: final_state_def)
    have h: "heap ?f = (heap s)(?p := (heap s ?p)\<lparr>in_focus := False\<rparr>)"
      and o: "buttons ?f = buttons s" "status ?f = status s"
        "status_value ?f = status_value s" "calls ?f = calls s"
      by (simp_all add: f)
    have 1: "\<forall>r. r \<noteq> ?p \<and> r \<noteq> widget s (focus_index_x ?f) (focus_index_y ?f) \<longrightarrow>
        heap ?f r = heap s r"
      by (simp add: h)
    have 2: "\<forall>r. heap ?f r = (heap s r)\<lparr>in_focus := in_focus (heap ?f r)\<rparr>"
      unfolding h by simp
    from 1 2 o show ?thesis by - (intro conjI, assumption+)
  qed
qed

text \<open>
  With exactly the widget behind \<open>p\<close> focused, refocusing from \<open>p\<close> to a widget \<open>n\<close> of the
  grid changes the flag of exactly these two when they differ, and of none when they are
  the same; clearing \<open>p\<close> alone changes the flag of \<open>p\<close> alone.
\<close>

lemma only_focused:
  assumes "focused_widgets s = {p}" and "r \<in> set (concat (buttons s))"
  shows "in_focus (heap s r) \<longleftrightarrow> r = p"
proof -
  from assms(1) have "r \<in> focused_widgets s \<longleftrightarrow> r = p" by simp
  with assms(2) show ?thesis by (simp add: focused_widgets_def)
qed

lemma toggled_refocus:
  assumes one: "focused_widgets s = {p}"
    and n: "n \<in> set (concat (buttons s))"
    and h: "heap t = refocus (heap s) p n"
  shows "toggled_widgets s t = (if p = n then {} else {p, n})"
proof -
  from one have p: "p \<in> set (concat (buttons s))"
    unfolding focused_widgets_def by blast
  have "toggled_widgets s t = {r \<in> set (concat (buttons s)). (r = n) \<noteq> (r = p)}"
    unfolding toggled_widgets_def
  proof (intro Collect_cong conj_cong refl)
    fix r assume r: "r \<in> set (concat (buttons s))"
    from only_focused [OF one r]
    show "(in_focus (heap t r) \<noteq> in_focus (heap s r)) = ((r = n) \<noteq> (r = p))"
      by (simp add: h in_focus_refocus)
  qed
  also have "\<dots> = (if p = n then {} else {p, n})"
    using p n by (cases "p = n") auto
  finally show ?thesis .
qed

lemma toggled_cleared:
  assumes one: "focused_widgets s = {p}"
    and h: "heap t = (heap s)(p := (heap s p)\<lparr>in_focus := False\<rparr>)"
  shows "toggled_widgets s t = {p}"
proof -
  from one have p: "p \<in> set (concat (buttons s))"
    unfolding focused_widgets_def by blast
  have "toggled_widgets s t = {r \<in> set (concat (buttons s)). r = p}"
    unfolding toggled_widgets_def
  proof (intro Collect_cong conj_cong refl)
    fix r assume r: "r \<in> set (concat (buttons s))"
    from only_focused [OF one r]
    show "(in_focus (heap t r) \<noteq> in_focus (heap s r)) = (r = p)"
      by (simp add: h)
  qed
  also have "\<dots> = {p}"
    using p by auto
  finally show ?thesis .
qed

text \<open>
  C9, as the code has it: every directional move, made from a state in which exactly the
  widget at the focus position is focused, does the following. When the destination cell
  exists it returns, having cleared the flag of the previous widget and then set the flag
  of the new one: the flag is toggled on exactly two widget references, the previous and
  the new, when these differ, and on none at a boundary self-loop, where they are the same
  widget. When the destination cell does not exist (a ragged grid) it raises
  \<open>IndexError\<close> with the previous widget's flag the only one toggled and the coordinates
  as they were. In both cases no other widget's flag, no other field of any widget and no
  other state besides the focus coordinates is mutated.
\<close>

theorem directional_event_toggles:
  assumes v: "valid_focus s"
    and one: "focused_widgets s = {widget s (focus_index_x s) (focus_index_y s)}"
    and n: "new_focus_index s (Member m) = Inr (s1, nx, ny)"
  shows "(valid_position s nx ny \<longrightarrow>
            (\<exists>s'. change_button_focus s (Member m) = Inr s' \<and>
               focus_index_x s' = nx \<and> focus_index_y s' = ny \<and>
               heap s' = refocus (heap s) (widget s (focus_index_x s) (focus_index_y s))
                           (widget s nx ny) \<and>
               toggled_widgets s s' =
                 (if widget s (focus_index_x s) (focus_index_y s) = widget s nx ny then {}
                  else {widget s (focus_index_x s) (focus_index_y s), widget s nx ny}) \<and>
               (\<forall>r. r \<noteq> widget s (focus_index_x s) (focus_index_y s) \<and> r \<noteq> widget s nx ny \<longrightarrow>
                    heap s' r = heap s r) \<and>
               (\<forall>r. heap s' r = (heap s r)\<lparr>in_focus := in_focus (heap s' r)\<rparr>) \<and>
               buttons s' = buttons s \<and> status s' = status s \<and>
               status_value s' = status_value s \<and> calls s' = calls s)) \<and>
         (\<not> valid_position s nx ny \<longrightarrow>
            (\<exists>s'. change_button_focus s (Member m) = Inl (IndexError, s') \<and>
               focus_index_x s' = focus_index_x s \<and> focus_index_y s' = focus_index_y s \<and>
               heap s' = (heap s)(widget s (focus_index_x s) (focus_index_y s) :=
                 (heap s (widget s (focus_index_x s) (focus_index_y s)))\<lparr>in_focus := False\<rparr>) \<and>
               toggled_widgets s s' = {widget s (focus_index_x s) (focus_index_y s)} \<and>
               buttons s' = buttons s \<and> status s' = status s \<and>
               status_value s' = status_value s \<and> calls s' = calls s))"
proof -
  let ?p = "widget s (focus_index_x s) (focus_index_y s)"
  let ?n = "widget s nx ny"
  from new_focus_index_valid [OF v, of m] n have s1: "s1 = s" by auto
  have returned: "\<exists>s'. change_button_focus s (Member m) = Inr s' \<and>
               focus_index_x s' = nx \<and> focus_index_y s' = ny \<and>
               heap s' = refocus (heap s) ?p ?n \<and>
               toggled_widgets s s' = (if ?p = ?n then {} else {?p, ?n}) \<and>
               (\<forall>r. r \<noteq> ?p \<and> r \<noteq> ?n \<longrightarrow> heap s' r = heap s r) \<and>
               (\<forall>r. heap s' r = (heap s r)\<lparr>in_focus := in_focus (heap s' r)\<rparr>) \<and>
               buttons s' = buttons s \<and> status s' = status s \<and>
               status_value s' = status_value s \<and> calls s' = calls s"
    if t: "valid_position s nx ny"
  proof -
    define s' where
      "s' = s\<lparr>heap := refocus (heap s) ?p ?n, focus_index_x := nx, focus_index_y := ny\<rparr>"
    from change_button_focus_returns [OF v n t]
    have r: "change_button_focus s (Member m) = Inr s'" by (simp add: s1 s'_def)
    have c: "focus_index_x s' = nx" "focus_index_y s' = ny"
      and h: "heap s' = refocus (heap s) ?p ?n"
      and o: "buttons s' = buttons s" "status s' = status s"
        "status_value s' = status_value s" "calls s' = calls s"
      by (simp_all add: s'_def)
    note g = toggled_refocus [OF one widget_in_grid [OF t] h]
    have 1: "\<forall>r. r \<noteq> ?p \<and> r \<noteq> ?n \<longrightarrow> heap s' r = heap s r"
      by (simp add: h refocus_other)
    have 2: "\<forall>r. heap s' r = (heap s r)\<lparr>in_focus := in_focus (heap s' r)\<rparr>"
      unfolding h by (intro allI) (rule refocus_flag_only)
    from r c h g 1 2 o show ?thesis
      by - (rule exI [of _ s'], intro conjI, assumption+)
  qed
  have raised: "\<exists>s'. change_button_focus s (Member m) = Inl (IndexError, s') \<and>
               focus_index_x s' = focus_index_x s \<and> focus_index_y s' = focus_index_y s \<and>
               heap s' = (heap s)(?p := (heap s ?p)\<lparr>in_focus := False\<rparr>) \<and>
               toggled_widgets s s' = {?p} \<and>
               buttons s' = buttons s \<and> status s' = status s \<and>
               status_value s' = status_value s \<and> calls s' = calls s"
    if t: "\<not> valid_position s nx ny"
  proof -
    define s' where "s' = s\<lparr>heap := (heap s)(?p := (heap s ?p)\<lparr>in_focus := False\<rparr>)\<rparr>"
    from change_button_focus_raises [OF v n t]
    have r: "change_button_focus s (Member m) = Inl (IndexError, s')" by (simp add: s1 s'_def)
    have c: "focus_index_x s' = focus_index_x s" "focus_index_y s' = focus_index_y s"
      and h: "heap s' = (heap s)(?p := (heap s ?p)\<lparr>in_focus := False\<rparr>)"
      and o: "buttons s' = buttons s" "status s' = status s"
        "status_value s' = status_value s" "calls s' = calls s"
      by (simp_all add: s'_def)
    note g = toggled_cleared [OF one h]
    from r c h g o show ?thesis
      by - (rule exI [of _ s'], intro conjI, assumption+)
  qed
  from returned raised show ?thesis by blast
qed

theorem directional_event_toggles_witness:
  "valid_focus at_top_right \<and>
   focused_widgets at_top_right =
     {widget at_top_right (focus_index_x at_top_right) (focus_index_y at_top_right)} \<and>
   new_focus_index at_top_right (Member LEFT) = Inr (at_top_right, 0, 0) \<and>
   valid_position at_top_right 0 0 \<and>
   raised (change_button_focus at_top_right (Member LEFT)) = None \<and>
   toggled_widgets at_top_right (final_state (change_button_focus at_top_right (Member LEFT)))
     = {1, 0} \<and>
   valid_focus start_focused \<and>
   focused_widgets start_focused =
     {widget start_focused (focus_index_x start_focused) (focus_index_y start_focused)} \<and>
   new_focus_index start_focused (Member DOWN) = Inr (start_focused, 0, 0) \<and>
   valid_position start_focused 0 0 \<and>
   raised (change_button_focus start_focused (Member DOWN)) = None \<and>
   toggled_widgets start_focused (final_state (change_button_focus start_focused (Member DOWN)))
     = {} \<and>
   valid_focus at_bottom_left \<and>
   focused_widgets at_bottom_left =
     {widget at_bottom_left (focus_index_x at_bottom_left) (focus_index_y at_bottom_left)} \<and>
   new_focus_index at_bottom_left (Member RIGHT) = Inr (at_bottom_left, 1, 1) \<and>
   \<not> valid_position at_bottom_left 1 1 \<and>
   raised (change_button_focus at_bottom_left (Member RIGHT)) = Some IndexError \<and>
   toggled_widgets at_bottom_left (final_state (change_button_focus at_bottom_left (Member RIGHT)))
     = {1}"
proof -
  have v1: "valid_focus at_top_right" by (simp add: ex_simps)
  have o1: "focused_widgets at_top_right =
      {widget at_top_right (focus_index_x at_top_right) (focus_index_y at_top_right)}"
    by (auto simp: ex_simps)
  have p1: "focus_index_x at_top_right = 1" "focus_index_y at_top_right = 0"
    "buttons at_top_right = [[0], [1, 2]]"
    by (simp_all add: ex_simps)
  have n1: "new_focus_index at_top_right (Member LEFT) = Inr (at_top_right, 0, 0)"
    by (simp add: p1)
  have t1: "valid_position at_top_right 0 0" by (simp add: ex_simps)
  from directional_event_toggles [OF v1 o1 n1] t1 obtain s' where
    "change_button_focus at_top_right (Member LEFT) = Inr s'"
    "toggled_widgets at_top_right s' =
      (if widget at_top_right (focus_index_x at_top_right) (focus_index_y at_top_right) =
          widget at_top_right 0 0 then {}
       else {widget at_top_right (focus_index_x at_top_right) (focus_index_y at_top_right),
             widget at_top_right 0 0})"
    by blast
  then have r1: "raised (change_button_focus at_top_right (Member LEFT)) = None"
    and g1: "toggled_widgets at_top_right
        (final_state (change_button_focus at_top_right (Member LEFT))) = {1, 0}"
    by (simp_all add: raised_def final_state_def widget_def p1)
  have v2: "valid_focus start_focused" by (simp add: ex_simps)
  have o2: "focused_widgets start_focused =
      {widget start_focused (focus_index_x start_focused) (focus_index_y start_focused)}"
    by (auto simp: ex_simps)
  have p2: "focus_index_x start_focused = 0" "focus_index_y start_focused = 0"
    "buttons start_focused = [[0], [1]]"
    by (simp_all add: ex_simps)
  have n2: "new_focus_index start_focused (Member DOWN) = Inr (start_focused, 0, 0)"
    by (simp add: p2 subscript_def len_def)
  have t2: "valid_position start_focused 0 0" by (simp add: ex_simps)
  from directional_event_toggles [OF v2 o2 n2] t2 obtain s' where
    "change_button_focus start_focused (Member DOWN) = Inr s'"
    "toggled_widgets start_focused s' =
      (if widget start_focused (focus_index_x start_focused) (focus_index_y start_focused) =
          widget start_focused 0 0 then {}
       else {widget start_focused (focus_index_x start_focused) (focus_index_y start_focused),
             widget start_focused 0 0})"
    by blast
  then have r2: "raised (change_button_focus start_focused (Member DOWN)) = None"
    and g2: "toggled_widgets start_focused
        (final_state (change_button_focus start_focused (Member DOWN))) = {}"
    by (simp_all add: raised_def final_state_def widget_def p2)
  have v3: "valid_focus at_bottom_left" by (simp add: ex_simps)
  have o3: "focused_widgets at_bottom_left =
      {widget at_bottom_left (focus_index_x at_bottom_left) (focus_index_y at_bottom_left)}"
    by (auto simp: ex_simps)
  have p3: "focus_index_x at_bottom_left = 0" "focus_index_y at_bottom_left = 1"
    "buttons at_bottom_left = [[0, 1], [2]]"
    by (simp_all add: ex_simps)
  have n3: "new_focus_index at_bottom_left (Member RIGHT) = Inr (at_bottom_left, 1, 1)"
    by (simp add: p3 len_def)
  have t3: "\<not> valid_position at_bottom_left 1 1" by (simp add: ex_simps)
  from directional_event_toggles [OF v3 o3 n3] t3 obtain s' where
    "change_button_focus at_bottom_left (Member RIGHT) = Inl (IndexError, s')"
    "toggled_widgets at_bottom_left s' =
      {widget at_bottom_left (focus_index_x at_bottom_left) (focus_index_y at_bottom_left)}"
    by blast
  then have r3: "raised (change_button_focus at_bottom_left (Member RIGHT)) = Some IndexError"
    and g3: "toggled_widgets at_bottom_left
        (final_state (change_button_focus at_bottom_left (Member RIGHT))) = {1}"
    by (simp_all add: raised_def final_state_def widget_def p3)
  from v1 o1 n1 t1 r1 g1 v2 o2 n2 t2 r2 g2 v3 o3 n3 t3 r3 g3 show ?thesis
    by - (intro conjI, assumption+)
qed

text \<open>
  C9 as stated fails in three ways. Right after \<open>on_mount\<close> no button is focused, and the
  first move, DOWN staying at \<open>(0, 0)\<close>, toggles the START button's flag alone. At a
  boundary self-loop with the START button focused, DOWN clears and sets the one widget
  involved and no widget's flag differs after the move. On a ragged grid (columns of 2
  and 1 rows, RIGHT from \<open>(0, 1)\<close>) the second write raises and the previous widget's flag
  is the only one written. In none of the three is the flag toggled on two widgets.
\<close>

theorem exactly_two_toggled_counterexample:
  "valid_focus on_mount \<and> focused_widgets on_mount = {} \<and>
   raised (change_button_focus on_mount (Member DOWN)) = None \<and>
   toggled_widgets on_mount (final_state (change_button_focus on_mount (Member DOWN))) = {0} \<and>
   valid_focus start_focused \<and>
   focused_widgets start_focused =
     {widget start_focused (focus_index_x start_focused) (focus_index_y start_focused)} \<and>
   raised (change_button_focus start_focused (Member DOWN)) = None \<and>
   toggled_widgets start_focused (final_state (change_button_focus start_focused (Member DOWN))) = {} \<and>
   valid_focus at_bottom_left \<and>
   focused_widgets at_bottom_left =
     {widget at_bottom_left (focus_index_x at_bottom_left) (focus_index_y at_bottom_left)} \<and>
   raised (change_button_focus at_bottom_left (Member RIGHT)) = Some IndexError \<and>
   toggled_widgets at_bottom_left (final_state (change_button_focus at_bottom_left (Member RIGHT))) = {1}"
  by (auto simp add: ex_simps)

text \<open>
  The key handlers write the status line and then make the move: the line is the one
  state besides flags and coordinates that a key press changes.
\<close>

lemma key_handlers_status:
  assumes "valid_focus s"
  shows "status (final_state (action_up s)) = ''up-arrow''"
    and "status (final_state (action_down s)) = ''down-arrow''"
    and "status (final_state (action_left s)) = ''left-arrow''"
    and "status (final_state (action_right s)) = ''right-arrow''"
proof -
  have v: "valid_focus (s\<lparr>status := l\<rparr>)" for l
    using assms
    by (simp add: valid_focus_def valid_position_def columns_def rows_in_column_def)
  show "status (final_state (action_up s)) = ''up-arrow''"
    using move_frame [OF v, of "''up-arrow''" UP] by (simp add: action_up_def)
  show "status (final_state (action_down s)) = ''down-arrow''"
    using move_frame [OF v, of "''down-arrow''" DOWN] by (simp add: action_down_def)
  show "status (final_state (action_left s)) = ''left-arrow''"
    using move_frame [OF v, of "''left-arrow''" LEFT] by (simp add: action_left_def)
  show "status (final_state (action_right s)) = ''right-arrow''"
    using move_frame [OF v, of "''right-arrow''" RIGHT] by (simp add: action_right_def)
qed

section \<open>The application as built\<close>

lemma quiet_Member: "quiet (Member m)"
  by (simp add: quiet_def equals_def repr_def)

text \<open>A quiet argument takes the branch of some member or reaches the final \<open>else\<close>.\<close>

lemma new_focus_index_quiet:
  assumes q: "quiet d"
  shows "(\<exists>m. new_focus_index s d = new_focus_index s (Member m)) \<or>
         (\<exists>r. new_focus_index s d = Inr (s\<lparr>status := ''ERROR: Undefined direction='' @ r\<rparr>, 0, 0))"
proof (cases d)
  case (Member m)
  then show ?thesis by blast
next
  case (NonMember eq r)
  from q obtain bu bd bl br p where
    e: "eq UP = Inr bu" "eq DOWN = Inr bd" "eq LEFT = Inr bl" "eq RIGHT = Inr br" "r = Inr p"
    unfolding quiet_def NonMember equals_def repr_def
    by (cases "eq UP"; cases "eq DOWN"; cases "eq LEFT"; cases "eq RIGHT"; cases r) auto
  show ?thesis
  proof (cases bu)
    case True
    then have "new_focus_index s d = new_focus_index s (Member UP)"
      by (simp add: NonMember new_focus_index_def equals_def e)
    then show ?thesis by blast
  next
    case nu: False
    show ?thesis
    proof (cases bd)
      case True
      with nu have "new_focus_index s d = new_focus_index s (Member DOWN)"
        by (simp add: NonMember new_focus_index_def equals_def e)
      then show ?thesis by blast
    next
      case nd: False
      show ?thesis
      proof (cases bl)
        case True
        with nu nd have "new_focus_index s d = new_focus_index s (Member LEFT)"
          by (simp add: NonMember new_focus_index_def equals_def e)
        then show ?thesis by blast
      next
        case nl: False
        show ?thesis
        proof (cases br)
          case True
          with nu nd nl have "new_focus_index s d = new_focus_index s (Member RIGHT)"
            by (simp add: NonMember new_focus_index_def equals_def e)
          then show ?thesis by blast
        next
          case False
          with nu nd nl have "new_focus_index s d =
              Inr (s\<lparr>status := ''ERROR: Undefined direction='' @ p\<rparr>, 0, 0)"
            by (simp add: NonMember new_focus_index_def equals_def repr_def e)
          then show ?thesis by blast
        qed
      qed
    qed
  qed
qed

lemma constructed_member_step:
  assumes "constructed s"
  shows "\<exists>s'. change_button_focus s (Member m) = Inr s' \<and> constructed s'"
  using assms
  by (cases m)
    (auto simp: constructed_def change_button_focus_def set_in_focus_def button_at_def
      subscript_def len_def)

lemma constructed_reset_step:
  assumes "constructed s"
    and "new_focus_index s d = Inr (s\<lparr>status := ''ERROR: Undefined direction='' @ r\<rparr>, 0, 0)"
  shows "\<exists>s'. change_button_focus s d = Inr s' \<and> constructed s'"
  using assms
  by (auto simp: constructed_def change_button_focus_def set_in_focus_def button_at_def
      subscript_def len_def)

lemma constructed_quiet_step:
  assumes c: "constructed s" and q: "quiet d"
  shows "\<exists>s'. change_button_focus s d = Inr s' \<and> constructed s'"
proof -
  from new_focus_index_quiet [OF q, of s]
  consider m where "new_focus_index s d = new_focus_index s (Member m)"
    | r where "new_focus_index s d =
        Inr (s\<lparr>status := ''ERROR: Undefined direction='' @ r\<rparr>, 0, 0)"
    by blast
  then show ?thesis
  proof cases
    case 1
    from change_button_focus_cong [OF 1] constructed_member_step [OF c, of m]
    show ?thesis by simp
  next
    case 2
    from constructed_reset_step [OF c 2] show ?thesis .
  qed
qed

lemma constructed_step:
  assumes c: "constructed s"
  shows "constructed (final_state (change_button_focus s d))"
proof -
  from new_focus_index_cases [of s d]
  consider e where "new_focus_index s d = Inl (e, s)"
    | m where "new_focus_index s d = new_focus_index s (Member m)"
    | r where "new_focus_index s d =
        Inr (s\<lparr>status := ''ERROR: Undefined direction='' @ r\<rparr>, 0, 0)"
    by blast
  then show ?thesis
  proof cases
    case 1
    from change_button_focus_compare_raises [OF 1] c show ?thesis
      by (simp add: final_state_def)
  next
    case 2
    from change_button_focus_cong [OF 2] constructed_member_step [OF c, of m]
    show ?thesis by (auto simp: final_state_def)
  next
    case 3
    from constructed_reset_step [OF c 3] show ?thesis
      by (auto simp: final_state_def)
  qed
qed

lemma constructed_moves:
  "constructed s \<Longrightarrow> constructed (final_state (moves s ds))"
proof (induction ds arbitrary: s)
  case Nil
  then show ?case by (simp add: final_state_def)
next
  case (Cons d ds)
  show ?case
  proof (cases "change_button_focus s d")
    case (Inl e)
    with constructed_step [OF Cons.prems, of d] show ?thesis by simp
  next
    case (Inr t)
    with constructed_step [OF Cons.prems, of d] have "constructed t"
      by (simp add: final_state_def)
    with Cons.IH [of t] Inr show ?thesis by simp
  qed
qed

lemma constructed_quiet_moves:
  "constructed s \<Longrightarrow> list_all quiet ds \<Longrightarrow> \<exists>s'. moves s ds = Inr s' \<and> constructed s'"
proof (induction ds arbitrary: s)
  case Nil
  then show ?case by simp
next
  case (Cons d ds)
  from Cons.prems have q: "quiet d" "list_all quiet ds" by simp_all
  from constructed_quiet_step [OF Cons.prems(1) q(1)] obtain t where
    "change_button_focus s d = Inr t" "constructed t" by blast
  with Cons.IH [OF _ q(2), of t] show ?case by simp
qed

lemma constructed_vertical:
  assumes "constructed s" and "m = UP \<or> m = DOWN"
  shows "\<exists>u. change_button_focus s (Member m) = Inr u \<and>
           focus_index_x u = focus_index_x s \<and> focus_index_y u = focus_index_y s"
  using assms
  by (auto simp: constructed_def change_button_focus_def set_in_focus_def button_at_def
        subscript_def len_def)

text \<open>
  C10: in the application as \<open>on_mount\<close> builds it (two columns of one button each),
  every sequence of directional events returns and ends with the row index 0, and from
  the state it ends in both \<open>move(UP)\<close> and \<open>move(DOWN)\<close> return with the focus position
  unchanged. The same holds for every sequence of arguments none of which raises in a
  comparison or in its \<open>repr\<close>; and for every sequence of arguments whatever, the state
  the sequence ends in, returned or raised, has the row index 0 and is left at the same
  position by UP and by DOWN.
\<close>

theorem constructed_app_row_zero:
  "(\<exists>s'. moves on_mount (map Member ms) = Inr s' \<and> focus_index_y s' = 0 \<and>
      (\<exists>u. change_button_focus s' (Member UP) = Inr u \<and>
         focus_index_x u = focus_index_x s' \<and> focus_index_y u = focus_index_y s') \<and>
      (\<exists>u. change_button_focus s' (Member DOWN) = Inr u \<and>
         focus_index_x u = focus_index_x s' \<and> focus_index_y u = focus_index_y s')) \<and>
   (list_all quiet ds \<longrightarrow>
      (\<exists>s'. moves on_mount ds = Inr s' \<and> focus_index_y s' = 0 \<and>
         (\<exists>u. change_button_focus s' (Member UP) = Inr u \<and>
            focus_index_x u = focus_index_x s' \<and> focus_index_y u = focus_index_y s') \<and>
         (\<exists>u. change_button_focus s' (Member DOWN) = Inr u \<and>
            focus_index_x u = focus_index_x s' \<and> focus_index_y u = focus_index_y s'))) \<and>
   focus_index_y (final_state (moves on_mount ds)) = 0 \<and>
   (\<exists>u. change_button_focus (final_state (moves on_mount ds)) (Member UP) = Inr u \<and>
      focus_index_x u = focus_index_x (final_state (moves on_mount ds)) \<and>
      focus_index_y u = focus_index_y (final_state (moves on_mount ds))) \<and>
   (\<exists>u. change_button_focus (final_state (moves on_mount ds)) (Member DOWN) = Inr u \<and>
      focus_index_x u = focus_index_x (final_state (moves on_mount ds)) \<and>
      focus_index_y u = focus_index_y (final_state (moves on_mount ds)))"
proof -
  have c: "constructed on_mount" by (simp add: constructed_def on_mount_def)
  have row: "focus_index_y s' = 0 \<and>
      (\<exists>u. change_button_focus s' (Member UP) = Inr u \<and>
         focus_index_x u = focus_index_x s' \<and> focus_index_y u = focus_index_y s') \<and>
      (\<exists>u. change_button_focus s' (Member DOWN) = Inr u \<and>
         focus_index_x u = focus_index_x s' \<and> focus_index_y u = focus_index_y s')"
    if s': "constructed s'" for s'
  proof -
    from s' have "focus_index_y s' = 0" by (simp add: constructed_def)
    with constructed_vertical [OF s', of UP] constructed_vertical [OF s', of DOWN]
    show ?thesis by simp
  qed
  have quiet_runs: "\<exists>s'. moves on_mount es = Inr s' \<and> focus_index_y s' = 0 \<and>
         (\<exists>u. change_button_focus s' (Member UP) = Inr u \<and>
            focus_index_x u = focus_index_x s' \<and> focus_index_y u = focus_index_y s') \<and>
         (\<exists>u. change_button_focus s' (Member DOWN) = Inr u \<and>
            focus_index_x u = focus_index_x s' \<and> focus_index_y u = focus_index_y s')"
    if q: "list_all quiet es" for es
  proof -
    from constructed_quiet_moves [OF c q] obtain s' where
      s': "moves on_mount es = Inr s'" "constructed s'" by blast
    from row [OF s'(2)] s'(1) show ?thesis by blast
  qed
  have members: "list_all quiet (map Member ms)"
    by (simp add: list_all_iff quiet_Member)
  from quiet_runs [OF members] quiet_runs [of ds] row [OF constructed_moves [OF c, of ds]]
  show ?thesis by blast
qed

theorem constructed_app_row_zero_witness:
  "list_all quiet [Member DOWN, none_object, Member RIGHT] \<and>
   raised (moves on_mount [Member DOWN, Member RIGHT, Member UP]) = None \<and>
   focus_index_x (final_state (moves on_mount [Member DOWN, Member RIGHT, Member UP])) = 1 \<and>
   focus_index_y (final_state (moves on_mount [Member DOWN, Member RIGHT, Member UP])) = 0 \<and>
   raised (moves on_mount [Member DOWN, none_object, Member RIGHT]) = None \<and>
   focus_index_y (final_state (moves on_mount [Member DOWN, none_object, Member RIGHT])) = 0"
proof -
  have q: "list_all quiet [Member DOWN, none_object, Member RIGHT]"
    by (simp add: arg_simps)
  note t = constructed_app_row_zero [of "[DOWN, RIGHT, UP]" "[Member DOWN, none_object, Member RIGHT]"]
  from t obtain s' where
    s': "moves on_mount (map Member [DOWN, RIGHT, UP]) = Inr s'" "focus_index_y s' = 0"
    by blast
  from t q obtain s'' where
    s'': "moves on_mount [Member DOWN, none_object, Member RIGHT] = Inr s''"
      "focus_index_y s'' = 0"
    by blast
  have x: "focus_index_x (final_state (moves on_mount [Member DOWN, Member RIGHT, Member UP])) = 1"
    by (simp add: ex_simps)
  from s' have "moves on_mount [Member DOWN, Member RIGHT, Member UP] = Inr s'" by simp
  with s'(2) s'' q x show ?thesis
    by (simp add: final_state_def raised_def)
qed

section \<open>Activation\<close>

text \<open>\<open>action_enter\<close> writes the status line and nothing else: no callback is invoked.\<close>

lemma action_enter_invokes_nothing:
  "calls (final_state (action_enter s)) = calls s \<and>
   status_value (final_state (action_enter s)) = status_value s \<and>
   heap (final_state (action_enter s)) = heap s"
  by (simp add: action_enter_def final_state_def Let_def split: sum.splits)

text \<open>
  Awaiting the coroutine is what would run the body: the bound callable is then invoked
  once, with exactly the bound arguments.
\<close>

lemma await_interact_invokes_once:
  assumes "callback (heap s r) = Some f" and "args (heap s r) = Some a"
    and "raised (await (interact r) s) = None"
  shows "calls (final_state (await (interact r) s)) = calls s @ [(f, a)]"
proof (cases f)
  case WatchStatus
  show ?thesis
  proof (cases a)
    case Nil
    with assms WatchStatus show ?thesis by (simp add: interact_def raised_def)
  next
    case (Cons v vs)
    with assms WatchStatus show ?thesis
      by (cases vs) (simp_all add: interact_def raised_def final_state_def watch_status_def)
  qed
next
  case (Extern g)
  with assms show ?thesis by (simp add: interact_def final_state_def)
qed

text \<open>
  C3 on the code. The built application after RIGHT and LEFT has the START button at the
  focus position \<open>(0, 0)\<close>, focused, bound to \<open>watch_status\<close> with the arguments
  \<open>["top_button"]\<close>. \<open>action_enter\<close> returns with an empty call log and the status widget
  unchanged: the action is invoked zero times. Had the coroutine been awaited, the log
  would hold the one call with those arguments.
\<close>

theorem enter_drops_coroutine:
  "focus_index_x start_focused = 0 \<and> focus_index_y start_focused = 0 \<and>
   in_focus (heap start_focused 0) \<and>
   callback (heap start_focused 0) = Some WatchStatus \<and>
   args (heap start_focused 0) = Some [''top_button''] \<and>
   calls start_focused = [] \<and>
   raised (action_enter start_focused) = None \<and>
   calls (final_state (action_enter start_focused)) = [] \<and>
   status_value (final_state (action_enter start_focused)) = ''-'' \<and>
   calls (final_state (await (interact 0) start_focused)) = [(WatchStatus, [''top_button''])]"
  by (simp add: ex_simps action_enter_def interact_def watch_status_def)

end
